theory Spec2Isabelle
  imports Complex_Main "HOL-Library.Product_Lexorder" "HOL-Library.Multiset"
begin

section \<open>Common pieces of both report scripts\<close>

text \<open>
  Both scripts are straight-line Python over pandas. Uncaught exceptions abort the run, so
  they are values of the model. Floating-point cells are idealised as exact reals; a cell
  that pandas prints as NaN is \<open>None\<close>.
\<close>

datatype py_error = KeyError | NameError | ValueError | IndexError | JSONDecodeError

text \<open>What a script run ends in: \<open>exit(code)\<close> after some printed lines, an uncaught
  exception, or the aggregated result (the report printing and the files are left out).\<close>

datatype 'r outcome = Exit int "string list" | Raised py_error | Done 'r

text \<open>\<open>Series.nunique()\<close>: the number of distinct values.\<close>

definition nunique :: "'a list \<Rightarrow> nat" where
  "nunique xs = length (remdups xs)"

text \<open>\<open>Series.unique().tolist()\<close>: the distinct values in order of first appearance.\<close>

fun unique :: "'a list \<Rightarrow> 'a list" where
  "unique [] = []"
| "unique (x # xs) = x # unique (filter (\<lambda>y. y \<noteq> x) xs)"

text \<open>
  \<open>nanargmax\<close> / \<open>nanargmin\<close>, on which \<open>Series.idxmax()\<close> and \<open>Series.idxmin()\<close> rest:
  one scan from the left that skips NaN and replaces the best position only by a strictly
  better value, so the first occurrence wins. \<open>None\<close> stands for "no value at all" (an
  empty or all-NaN series: pandas raises ValueError or returns NaN there, depending on
  its version).
\<close>

fun arg_scan :: "(real \<Rightarrow> real \<Rightarrow> bool) \<Rightarrow> (nat \<times> real) option \<Rightarrow> nat \<Rightarrow> real option list
    \<Rightarrow> (nat \<times> real) option" where
  "arg_scan better best i [] = best"
| "arg_scan better best i (None # vs) = arg_scan better best (Suc i) vs"
| "arg_scan better best i (Some v # vs) =
     arg_scan better
       (case best of None \<Rightarrow> Some (i, v)
        | Some (b, w) \<Rightarrow> if better v w then Some (i, v) else Some (b, w))
       (Suc i) vs"

definition nanargmax :: "real option list \<Rightarrow> nat option" where
  "nanargmax vs = map_option fst (arg_scan (\<lambda>v w. w < v) None 0 vs)"

definition nanargmin :: "real option list \<Rightarrow> nat option" where
  "nanargmin vs = map_option fst (arg_scan (\<lambda>v w. v < w) None 0 vs)"

text \<open>A series is a list of labels beside a list of values; \<open>idxmax\<close> returns the label
  at the position \<open>nanargmax\<close> finds.\<close>

definition idxmax :: "'l list \<Rightarrow> real option list \<Rightarrow> 'l option" where
  "idxmax labels vs = map_option (\<lambda>i. labels ! i) (nanargmax vs)"

definition idxmin :: "'l list \<Rightarrow> real option list \<Rightarrow> 'l option" where
  "idxmin labels vs = map_option (\<lambda>i. labels ! i) (nanargmin vs)"

text \<open>\<open>Series.mean()\<close> with the default \<open>skipna=True\<close>: the mean of the cells that
  are not NaN, and NaN when there is none.\<close>

definition mean_skipna :: "real option list \<Rightarrow> real option" where
  "mean_skipna vs =
     (let xs = [x. Some x \<leftarrow> vs]
      in if xs = [] then None else Some (sum_list xs / real (length xs)))"

section \<open>The sales funnel script\<close>

text \<open>A row of the funnel data. Its \<open>date\<close> column is parsed at line 27 and not read
  again, so it is left out.\<close>

record funnel_event =
  fe_user_id :: nat
  fe_stage :: string

record metrics =
  stage :: string
  users :: nat
  overall_conversion :: real
  stage_conversion :: real

text \<open>\<open>str.split(',')\<close>.\<close>

fun split_comma :: "string \<Rightarrow> string list" where
  "split_comma [] = [[]]"
| "split_comma (c # cs) =
     (if c = CHR '','' then [] # split_comma cs
      else (case split_comma cs of w # ws \<Rightarrow> (c # w) # ws | [] \<Rightarrow> [[c]]))"

text \<open>
  Line 30:
  \<^verbatim>\<open>funnel_stages = {{stages}}.split(',') if '{{stages}}' != '' else df['stage'].unique().tolist()\<close>
  The placeholder occurs twice. \<open>stages_lit\<close> is the content of the quoted occurrence, a
  string literal; \<open>stages_val\<close> is what evaluating the unquoted occurrence gives. Python
  evaluates the condition first and then only the branch it selects.
\<close>

definition funnel_stages :: "string \<Rightarrow> py_error + string \<Rightarrow> funnel_event list
    \<Rightarrow> py_error + string list" where
  "funnel_stages stages_lit stages_val df =
     (if stages_lit \<noteq> []
      then (case stages_val of Inl e \<Rightarrow> Inl e | Inr s \<Rightarrow> Inr (split_comma s))
      else Inr (unique (map fe_stage df)))"

text \<open>
  The script as it is in the repository, with the stage placeholder not replaced: the
  quoted occurrence is the ten-character literal, and the unquoted occurrence is a set
  display around the name \<open>stages\<close>, which is not bound before line 83.
\<close>

definition template_stages_lit :: string where
  "template_stages_lit = ''{{stages}}''"

definition template_stages_val :: "py_error + string" where
  "template_stages_val = Inl NameError"

text \<open>Lines 37 to 56: the loop over the configured stages, appending one entry each.\<close>

fun metrics_loop :: "funnel_event list \<Rightarrow> nat \<Rightarrow> nat \<Rightarrow> string list \<Rightarrow> metrics list
    \<Rightarrow> metrics list" where
  "metrics_loop df total_leads i [] funnel_metrics = funnel_metrics"
| "metrics_loop df total_leads i (s # ss) funnel_metrics =
     (let stage_users = nunique [fe_user_id e. e \<leftarrow> df, fe_stage e = s];
          conversion_rate =
            (if total_leads > 0 then real stage_users / real total_leads * 100 else 0);
          stage_conv =
            (if i > 0
             then (let prev_stage_users = users (funnel_metrics ! (i - 1))
                   in if prev_stage_users > 0
                      then real stage_users / real prev_stage_users * 100 else 0)
             else 100)
      in metrics_loop df total_leads (Suc i) ss
           (funnel_metrics @ [\<lparr>stage = s, users = stage_users,
              overall_conversion = conversion_rate, stage_conversion = stage_conv\<rparr>]))"

definition funnel_metrics :: "funnel_event list \<Rightarrow> string list \<Rightarrow> metrics list" where
  "funnel_metrics df stages = metrics_loop df (nunique (map fe_user_id df)) 0 stages []"

text \<open>Lines 70 to 77: the drop-off and its rate for each pair of consecutive rows. The
  counts are integers and the difference may be negative.\<close>

definition dropoff_at :: "metrics list \<Rightarrow> nat \<Rightarrow> int \<times> real" where
  "dropoff_at funnel_df i =
     (let current_users = int (users (funnel_df ! i));
          next_users = int (users (funnel_df ! (i + 1)));
          dropoff = current_users - next_users;
          dropoff_rate =
            (if current_users > 0 then real_of_int dropoff / real_of_int current_users * 100
             else 0)
      in (dropoff, dropoff_rate))"

definition dropoffs :: "metrics list \<Rightarrow> (int \<times> real) list" where
  "dropoffs funnel_df = map (dropoff_at funnel_df) [0 ..< length funnel_df - 1]"

text \<open>
  Lines 134 and 139: \<open>funnel_df['stage_conversion'].iloc[1:]\<close> keeps the labels
  \<open>1, 2, ...\<close> of the range index, and \<open>idxmin\<close>/\<open>idxmax\<close> return such a label, which
  line 136 uses as a row position.
\<close>

definition biggest_dropoff_idx :: "metrics list \<Rightarrow> nat option" where
  "biggest_dropoff_idx funnel_df =
     idxmin [1 ..< length funnel_df] (map (Some \<circ> stage_conversion) (drop 1 funnel_df))"

definition best_stage_idx :: "metrics list \<Rightarrow> nat option" where
  "best_stage_idx funnel_df =
     idxmax [1 ..< length funnel_df] (map (Some \<circ> stage_conversion) (drop 1 funnel_df))"

text \<open>
  Lines 8 to 21, then the aggregation. \<open>loads\<close> stands for lines 24 to 27
  (\<open>json.loads\<close>, the data frame, \<open>to_datetime\<close>), which belong to the libraries;
  \<open>df['date']\<close> on a frame made from no record at all raises KeyError.
\<close>

definition rule60 :: string where
  "rule60 = replicate 60 CHR ''=''"

definition funnel_banner :: "string list" where
  "funnel_banner = [rule60, ''SALES FUNNEL ANALYSIS - Conversion Optimization'', rule60]"

definition funnel_hint :: "string list" where
  "funnel_hint =
     [''Note: This is a template. Data will be injected when executed.'',
      [], ''Expected data format:'',
      ''  - user_id: Lead/Customer identifier'',
      ''  - stage: Funnel stage name'',
      ''  - date: Timestamp of stage entry'']"

record funnel_result =
  funnel_df :: "metrics list"
  dropoff_report :: "(int \<times> real) list"
  biggest_dropoff :: nat
  best_stage :: nat

definition funnel_script :: "(string \<Rightarrow> py_error + funnel_event list) \<Rightarrow> string \<Rightarrow> string
    \<Rightarrow> py_error + string \<Rightarrow> funnel_result outcome" where
  "funnel_script loads data_json stages_lit stages_val =
     (if data_json = ''{{data}}'' then Exit 0 (funnel_banner @ funnel_hint)
      else (case loads data_json of
              Inl e \<Rightarrow> Raised e
            | Inr df \<Rightarrow>
                if df = [] then Raised KeyError
                else (case funnel_stages stages_lit stages_val df of
                        Inl e \<Rightarrow> Raised e
                      | Inr stages \<Rightarrow>
                          (let ms = funnel_metrics df stages
                           in case (biggest_dropoff_idx ms, best_stage_idx ms) of
                                (Some b, Some g) \<Rightarrow>
                                  Done \<lparr>funnel_df = ms, dropoff_report = dropoffs ms,
                                        biggest_dropoff = b, best_stage = g\<rparr>
                              | _ \<Rightarrow> Raised ValueError))))"

section \<open>The cohort analysis script\<close>

text \<open>
  A parsed \<open>date\<close> cell is a timestamp. It is kept as the ordinal of its calendar month
  and its offset inside that month, ordered lexicographically, which is the order of
  time; \<open>dt.to_period('M')\<close> is then the first component, and the difference of two
  monthly periods has as its \<open>n\<close> the difference of the ordinals.
\<close>

type_synonym timestamp = "int \<times> nat"

definition ymd :: "int \<Rightarrow> nat \<Rightarrow> nat \<Rightarrow> timestamp" where
  "ymd y m d = (y * 12 + (int m - 1), d)"

definition to_period_M :: "timestamp \<Rightarrow> int" where
  "to_period_M t = fst t"

text \<open>A row of the cohort data; the optional \<open>event\<close> label is never read and is left
  out.\<close>

record event =
  user_id :: nat
  date :: timestamp

text \<open>Line 39: \<open>groupby('user_id')['date'].transform('min')\<close> gives each row the least
  date among the rows of the same user (the row itself is one of them).\<close>

definition first_date :: "event list \<Rightarrow> event \<Rightarrow> timestamp" where
  "first_date df e = fold min [date e'. e' \<leftarrow> df, user_id e' = user_id e] (date e)"

definition cohort_month :: "event list \<Rightarrow> event \<Rightarrow> int" where
  "cohort_month df e = to_period_M (first_date df e)"

definition activity_month :: "event \<Rightarrow> int" where
  "activity_month e = to_period_M (date e)"

definition period_number :: "event list \<Rightarrow> event \<Rightarrow> int" where
  "period_number df e = activity_month e - cohort_month df e"

definition group_key :: "event list \<Rightarrow> event \<Rightarrow> int \<times> int" where
  "group_key df e = (cohort_month df e, period_number df e)"

text \<open>Line 46: one row for each group key that occurs, in sorted key order, with the
  number of distinct users of the group.\<close>

definition cohort_data :: "event list \<Rightarrow> ((int \<times> int) \<times> nat) list" where
  "cohort_data df =
     map (\<lambda>k. (k, nunique [user_id e. e \<leftarrow> df, group_key df e = k]))
       (sort (remdups (map (group_key df) df)))"

text \<open>A data frame with integer row and column labels; the cells are row-major.\<close>

record 'v frame =
  index :: "int list"
  columns :: "int list"
  vals :: "'v option list list"

text \<open>Line 47: \<open>pivot\<close> makes the sorted distinct first key components the rows and the
  sorted distinct second components the columns; a pair without a row is NaN.\<close>

definition pivot :: "((int \<times> int) \<times> 'v) list \<Rightarrow> 'v frame" where
  "pivot rows =
     (let idx = sort (remdups (map (fst \<circ> fst) rows));
          cols = sort (remdups (map (snd \<circ> fst) rows))
      in \<lparr>index = idx, columns = cols,
          vals = map (\<lambda>c. map (\<lambda>p. map_of rows (c, p)) cols) idx\<rparr>)"

text \<open>\<open>iloc[:, j]\<close>: the column at position \<open>j\<close>.\<close>

definition iloc_col :: "'v frame \<Rightarrow> nat \<Rightarrow> py_error + 'v option list" where
  "iloc_col fr j =
     (if j < length (columns fr) then Inr (map (\<lambda>row. row ! j) (vals fr))
      else Inl IndexError)"

text \<open>\<open>iloc[:, a:b]\<close>: the columns at positions \<open>a\<close> to \<open>b - 1\<close>, as many as exist.\<close>

definition iloc_cols :: "'v frame \<Rightarrow> nat \<Rightarrow> nat \<Rightarrow> 'v frame" where
  "iloc_cols fr a b =
     \<lparr>index = index fr, columns = take (b - a) (drop a (columns fr)),
      vals = map (\<lambda>row. take (b - a) (drop a row)) (vals fr)\<rparr>"

text \<open>
  Line 53: \<open>divide(cohort_sizes, axis=0)\<close> divides each row by the entry of the series
  for that row, and \<open>* 100\<close> scales every cell. NaN on either side gives NaN. A zero
  divisor would give an infinity in numpy, which the model does not have; the divisors
  here are distinct-user counts of groups that occur, hence positive.
\<close>

definition divide_axis0 :: "nat frame \<Rightarrow> nat option list \<Rightarrow> real frame" where
  "divide_axis0 fr sizes =
     \<lparr>index = index fr, columns = columns fr,
      vals = map2 (\<lambda>row size.
                map (\<lambda>v. case (v, size) of
                            (Some n, Some m) \<Rightarrow> if m = 0 then None else Some (real n / real m)
                          | _ \<Rightarrow> None) row)
              (vals fr) sizes\<rparr>"

definition times :: "real frame \<Rightarrow> real \<Rightarrow> real frame" where
  "times fr k =
     \<lparr>index = index fr, columns = columns fr,
      vals = map (map (map_option (\<lambda>x. x * k))) (vals fr)\<rparr>"

text \<open>\<open>mean(axis=0)\<close>: a series over the column labels; \<open>mean(axis=1)\<close>: a series over
  the row labels.\<close>

definition mean_axis0 :: "real frame \<Rightarrow> (int \<times> real option) list" where
  "mean_axis0 fr =
     map (\<lambda>j. (columns fr ! j, mean_skipna (map (\<lambda>row. row ! j) (vals fr))))
       [0 ..< length (columns fr)]"

definition mean_axis1 :: "real frame \<Rightarrow> real option list" where
  "mean_axis1 fr = map mean_skipna (vals fr)"

record cohort_result =
  cohort_pivot :: "nat frame"
  cohort_sizes :: "nat option list"
  retention :: "real frame"
  avg_retention :: "(int \<times> real option) list"
  best_cohort :: "int option"
  worst_cohort :: "int option"

text \<open>Lines 36 to 53, 68, 125 and 126.\<close>

definition cohort_analysis :: "event list \<Rightarrow> py_error + cohort_result" where
  "cohort_analysis df =
     (if df = [] then Inl KeyError
      else (let pv = pivot (cohort_data df)
            in case iloc_col pv 0 of
                 Inl e \<Rightarrow> Inl e
               | Inr sizes \<Rightarrow>
                   (let ret = times (divide_axis0 pv sizes) 100;
                        cols_1_6 = iloc_cols ret 1 6
                    in Inr \<lparr>cohort_pivot = pv, cohort_sizes = sizes, retention = ret,
                            avg_retention = mean_axis0 ret,
                            best_cohort = idxmax (index cols_1_6) (mean_axis1 cols_1_6),
                            worst_cohort = idxmin (index cols_1_6) (mean_axis1 cols_1_6)\<rparr>)))"

definition cohort_banner :: "string list" where
  "cohort_banner = [rule60, ''COHORT ANALYSIS - User Retention & Lifecycle'', rule60]"

definition cohort_hint :: "string list" where
  "cohort_hint =
     [''Note: This is a template. Data will be injected when executed.'',
      [], ''Expected data format:'',
      ''  - user_id: User identifier'',
      ''  - date: Event date (YYYY-MM-DD format)'',
      ''  - event: Event type (optional)'']"

definition cohort_script :: "(string \<Rightarrow> py_error + event list) \<Rightarrow> string
    \<Rightarrow> cohort_result outcome" where
  "cohort_script loads data_json =
     (if data_json = ''{{data}}'' then Exit 0 (cohort_banner @ cohort_hint)
      else (case loads data_json of
              Inl e \<Rightarrow> Raised e
            | Inr df \<Rightarrow> (case cohort_analysis df of Inl e \<Rightarrow> Raised e | Inr r \<Rightarrow> Done r)))"

section \<open>Notions the properties are stated with\<close>

text \<open>The cell of a frame at a row label and a column label; \<open>None\<close> for NaN, and also
  where a label does not occur.\<close>

definition cell :: "'v frame \<Rightarrow> int \<Rightarrow> int \<Rightarrow> 'v option" where
  "cell fr c p =
     (case map_of (zip (index fr) (vals fr)) c of
        None \<Rightarrow> None
      | Some row \<Rightarrow> (case map_of (zip (columns fr) row) p of None \<Rightarrow> None | Some v \<Rightarrow> v))"

text \<open>The specification's measure of a cohort: the mean of its retention over the
  elapsed periods 1 to 5, ignoring missing cells.\<close>

definition spec_mean_periods_1_to_5 :: "real frame \<Rightarrow> int \<Rightarrow> real option" where
  "spec_mean_periods_1_to_5 ret c = mean_skipna (map (cell ret c) [1, 2, 3, 4, 5])"

text \<open>What a scan has found so far: nothing if every cell was NaN, else the first
  position holding a value that no other value beats.\<close>

definition first_best :: "(real \<Rightarrow> real \<Rightarrow> bool) \<Rightarrow> real option list \<Rightarrow> (nat \<times> real) option
    \<Rightarrow> bool" where
  "first_best better xs r =
     (case r of
        None \<Rightarrow> (\<forall>j<length xs. xs ! j = None)
      | Some (p, w) \<Rightarrow> p < length xs \<and> xs ! p = Some w
          \<and> (\<forall>j<length xs. \<forall>v. xs ! j = Some v \<longrightarrow> \<not> better v w)
          \<and> (\<forall>j<p. \<forall>v. xs ! j = Some v \<longrightarrow> better w v))"

text \<open>The entry the loop appends at position \<open>i\<close>, given the entries before it.\<close>

definition metrics_entry :: "funnel_event list \<Rightarrow> nat \<Rightarrow> nat \<Rightarrow> string \<Rightarrow> metrics list
    \<Rightarrow> metrics" where
  "metrics_entry df total_leads i s acc =
     (let stage_users = nunique [fe_user_id e. e \<leftarrow> df, fe_stage e = s]
      in \<lparr>stage = s, users = stage_users,
          overall_conversion =
            (if total_leads > 0 then real stage_users / real total_leads * 100 else 0),
          stage_conversion =
            (if i > 0
             then (if users (acc ! (i - 1)) > 0
                   then real stage_users / real (users (acc ! (i - 1))) * 100 else 0)
             else 100)\<rparr>)"

text \<open>A frame given by its labels and a function from labels to cells.\<close>

definition tabulate :: "int list \<Rightarrow> int list \<Rightarrow> (int \<Rightarrow> int \<Rightarrow> 'v option) \<Rightarrow> 'v frame" where
  "tabulate idx cols f = \<lparr>index = idx, columns = cols, vals = map (\<lambda>c. map (f c) cols) idx\<rparr>"

text \<open>The grouped count of a (cohort month, elapsed period) pair, if the pair occurs.\<close>

definition cohort_count :: "event list \<Rightarrow> int \<Rightarrow> int \<Rightarrow> nat option" where
  "cohort_count df c p = map_of (cohort_data df) (c, p)"

text \<open>The cell line 53 computes for a pair of labels: the count over the cohort's count at
  period 0, times 100.\<close>

definition retention_rate :: "event list \<Rightarrow> int \<Rightarrow> int \<Rightarrow> real option" where
  "retention_rate df c p =
     (case (cohort_count df c p, cohort_count df c 0) of
        (Some n, Some m) \<Rightarrow> if m = 0 then None else Some (real n / real m * 100)
      | _ \<Rightarrow> None)"

text \<open>The row and column labels of the pivot: the cohort months and the elapsed periods
  that occur, ascending.\<close>

definition cohort_index :: "event list \<Rightarrow> int list" where
  "cohort_index df = sorted_list_of_set (cohort_month df ` set df)"

definition period_columns :: "event list \<Rightarrow> int list" where
  "period_columns df = sorted_list_of_set (period_number df ` set df)"

section \<open>Example inputs\<close>

text \<open>The funnel scenario: three leads, two of them qualified, one closed.\<close>

definition funnel_example :: "funnel_event list" where
  "funnel_example =
     [\<lparr>fe_user_id = 1, fe_stage = ''lead''\<rparr>, \<lparr>fe_user_id = 2, fe_stage = ''lead''\<rparr>,
      \<lparr>fe_user_id = 3, fe_stage = ''lead''\<rparr>, \<lparr>fe_user_id = 1, fe_stage = ''qualified''\<rparr>,
      \<lparr>fe_user_id = 2, fe_stage = ''qualified''\<rparr>, \<lparr>fe_user_id = 1, fe_stage = ''closed''\<rparr>]"

definition funnel_example_stages :: "string list" where
  "funnel_example_stages = [''lead'', ''qualified'', ''closed'']"

text \<open>The cohort scenario: two users who both start in January 2024.\<close>

definition cohort_example :: "event list" where
  "cohort_example =
     [\<lparr>user_id = 1, date = ymd 2024 1 10\<rparr>, \<lparr>user_id = 1, date = ymd 2024 2 5\<rparr>,
      \<lparr>user_id = 2, date = ymd 2024 1 20\<rparr>, \<lparr>user_id = 2, date = ymd 2024 3 1\<rparr>]"

text \<open>
  Two cohorts whose elapsed periods are 0, 1 and 7. Users 1 and 2 start in January 2024;
  user 1 returns in February and both return in August. Users 3, 4 and 5 start in
  February 2024; users 3 and 4 return in March and user 3 returns in September.
\<close>

definition gap_example :: "event list" where
  "gap_example =
     [\<lparr>user_id = 1, date = ymd 2024 1 5\<rparr>, \<lparr>user_id = 2, date = ymd 2024 1 9\<rparr>,
      \<lparr>user_id = 1, date = ymd 2024 2 3\<rparr>,
      \<lparr>user_id = 1, date = ymd 2024 8 1\<rparr>, \<lparr>user_id = 2, date = ymd 2024 8 2\<rparr>,
      \<lparr>user_id = 3, date = ymd 2024 2 1\<rparr>, \<lparr>user_id = 4, date = ymd 2024 2 2\<rparr>,
      \<lparr>user_id = 5, date = ymd 2024 2 3\<rparr>,
      \<lparr>user_id = 3, date = ymd 2024 3 1\<rparr>, \<lparr>user_id = 4, date = ymd 2024 3 2\<rparr>,
      \<lparr>user_id = 3, date = ymd 2024 9 1\<rparr>]"

text \<open>
  Two cohorts with elapsed periods 0, 1 and 2. Users 1 and 2 start in January 2024;
  user 1 returns in February and user 2 in March. User 3 starts in February and returns
  in March, so the February cohort has no cell at period 2.
\<close>

definition two_cohort_example :: "event list" where
  "two_cohort_example =
     [\<lparr>user_id = 1, date = ymd 2024 1 10\<rparr>, \<lparr>user_id = 2, date = ymd 2024 1 20\<rparr>,
      \<lparr>user_id = 1, date = ymd 2024 2 5\<rparr>, \<lparr>user_id = 2, date = ymd 2024 3 1\<rparr>,
      \<lparr>user_id = 3, date = ymd 2024 2 7\<rparr>, \<lparr>user_id = 3, date = ymd 2024 3 9\<rparr>]"

text \<open>What the script computes on the three examples (month 24288 is January 2024).\<close>

definition cohort_example_result :: cohort_result where
  "cohort_example_result =
     \<lparr>cohort_pivot = \<lparr>index = [24288], columns = [0, 1, 2],
                      vals = [[Some 2, Some 1, Some 1]]\<rparr>,
      cohort_sizes = [Some 2],
      retention = \<lparr>index = [24288], columns = [0, 1, 2],
                    vals = [[Some 100, Some 50, Some 50]]\<rparr>,
      avg_retention = [(0, Some 100), (1, Some 50), (2, Some 50)],
      best_cohort = Some 24288, worst_cohort = Some 24288\<rparr>"

definition two_cohort_result :: cohort_result where
  "two_cohort_result =
     \<lparr>cohort_pivot = \<lparr>index = [24288, 24289], columns = [0, 1, 2],
                      vals = [[Some 2, Some 1, Some 1], [Some 1, Some 1, None]]\<rparr>,
      cohort_sizes = [Some 2, Some 1],
      retention = \<lparr>index = [24288, 24289], columns = [0, 1, 2],
                    vals = [[Some 100, Some 50, Some 50], [Some 100, Some 100, None]]\<rparr>,
      avg_retention = [(0, Some 100), (1, Some 75), (2, Some 50)],
      best_cohort = Some 24289, worst_cohort = Some 24288\<rparr>"

definition gap_result :: cohort_result where
  "gap_result =
     \<lparr>cohort_pivot = \<lparr>index = [24288, 24289], columns = [0, 1, 7],
                      vals = [[Some 2, Some 1, Some 2], [Some 3, Some 2, Some 1]]\<rparr>,
      cohort_sizes = [Some 2, Some 3],
      retention = \<lparr>index = [24288, 24289], columns = [0, 1, 7],
                    vals = [[Some 100, Some 50, Some 100],
                            [Some 100, Some (200 / 3), Some (100 / 3)]]\<rparr>,
      avg_retention = [(0, Some 100), (1, Some (175 / 3)), (7, Some (200 / 3))],
      best_cohort = Some 24288, worst_cohort = Some 24289\<rparr>"

section \<open>Scanning for the first best value\<close>

lemma first_best_snoc_None:
  "first_best better pre best \<Longrightarrow> first_best better (pre @ [None]) best"
  by (auto simp: first_best_def nth_append less_Suc_eq split: option.splits)

lemma first_best_snoc_Some:
  assumes A: "\<And>u v w. better v w \<Longrightarrow> \<not> better u w \<Longrightarrow> better v u"
      and B: "\<And>u v. better u v \<Longrightarrow> \<not> better v u"
      and fb: "first_best better pre best"
  shows "first_best better (pre @ [Some v])
           (case best of None \<Rightarrow> Some (length pre, v)
            | Some (b, w) \<Rightarrow> if better v w then Some (length pre, v) else Some (b, w))"
proof -
  have irrefl: "\<not> better v v"
    using B by blast
  show ?thesis
  proof (cases best)
    case None
    with fb have "\<forall>j<length pre. pre ! j = None"
      by (simp add: first_best_def)
    with None irrefl show ?thesis
      by (auto simp: first_best_def nth_append less_Suc_eq)
  next
    case (Some bw)
    obtain b w where bw: "bw = (b, w)" by (cases bw)
    from fb Some bw have p: "b < length pre" "pre ! b = Some w"
      and noworse: "\<forall>j<length pre. \<forall>u. pre ! j = Some u \<longrightarrow> \<not> better u w"
      and earlier: "\<forall>j<b. \<forall>u. pre ! j = Some u \<longrightarrow> better w u"
      by (simp_all add: first_best_def)
    show ?thesis
    proof (cases "better v w")
      case True
      have beats: "\<forall>j<length pre. \<forall>u. pre ! j = Some u \<longrightarrow> better v u"
        using noworse A [OF True] by blast
      have "\<forall>j<length pre. \<forall>u. pre ! j = Some u \<longrightarrow> \<not> better u v"
        using beats B by blast
      with beats irrefl True Some bw show ?thesis
        by (auto simp: first_best_def nth_append less_Suc_eq)
    next
      case False
      with p noworse earlier Some bw show ?thesis
        by (auto simp: first_best_def nth_append less_Suc_eq)
    qed
  qed
qed

lemma arg_scan_first_best:
  assumes A: "\<And>u v w. better v w \<Longrightarrow> \<not> better u w \<Longrightarrow> better v u"
      and B: "\<And>u v. better u v \<Longrightarrow> \<not> better v u"
  shows "first_best better pre best \<Longrightarrow>
         first_best better (pre @ vs) (arg_scan better best (length pre) vs)"
proof (induction vs arbitrary: pre best)
  case Nil
  then show ?case by simp
next
  case (Cons x vs)
  show ?case
  proof (cases x)
    case None
    have "first_best better ((pre @ [None]) @ vs)
            (arg_scan better best (length (pre @ [None])) vs)"
      by (rule Cons.IH) (rule first_best_snoc_None [OF Cons.prems])
    with None show ?thesis by simp
  next
    case (Some v)
    let ?best' = "case best of None \<Rightarrow> Some (length pre, v)
            | Some (b, w) \<Rightarrow> if better v w then Some (length pre, v) else Some (b, w)"
    have "first_best better ((pre @ [Some v]) @ vs)
            (arg_scan better ?best' (length (pre @ [Some v])) vs)"
      by (rule Cons.IH) (rule first_best_snoc_Some [OF A B Cons.prems])
    with Some show ?thesis by simp
  qed
qed

lemma arg_scan_start:
  assumes A: "\<And>u v w. better v w \<Longrightarrow> \<not> better u w \<Longrightarrow> better v u"
      and B: "\<And>u v. better u v \<Longrightarrow> \<not> better v u"
  shows "first_best better vs (arg_scan better None 0 vs)"
proof -
  have "first_best better [] None"
    by (simp add: first_best_def)
  from arg_scan_first_best [OF A B this, where vs=vs] show ?thesis
    by simp
qed

lemma nanargmax_first:
  "nanargmax vs = Some p \<Longrightarrow>
     p < length vs \<and> (\<exists>w. vs ! p = Some w
       \<and> (\<forall>j<length vs. \<forall>v. vs ! j = Some v \<longrightarrow> v \<le> w)
       \<and> (\<forall>j<p. \<forall>v. vs ! j = Some v \<longrightarrow> v < w))"
  using arg_scan_start [of "\<lambda>v w. w < v" vs]
  by (auto simp: nanargmax_def first_best_def not_less split: option.splits)

lemma nanargmin_first:
  "nanargmin vs = Some p \<Longrightarrow>
     p < length vs \<and> (\<exists>w. vs ! p = Some w
       \<and> (\<forall>j<length vs. \<forall>v. vs ! j = Some v \<longrightarrow> w \<le> v)
       \<and> (\<forall>j<p. \<forall>v. vs ! j = Some v \<longrightarrow> w < v))"
  using arg_scan_start [of "\<lambda>v w. v < w" vs]
  by (auto simp: nanargmin_def first_best_def not_less split: option.splits)

lemma first_best_None_iff:
  "first_best better vs r \<Longrightarrow> r = None \<longleftrightarrow> (\<forall>v\<in>set vs. v = None)"
proof (cases r)
  case None
  assume "first_best better vs r"
  with None have "\<forall>j<length vs. vs ! j = None"
    by (simp add: first_best_def)
  then have "\<forall>v\<in>set vs. v = None"
    by (metis in_set_conv_nth)
  with None show ?thesis by simp
next
  case (Some pw)
  assume "first_best better vs r"
  with Some have "\<exists>p w. p < length vs \<and> vs ! p = Some w"
    by (cases pw) (auto simp: first_best_def)
  then have "\<exists>v\<in>set vs. v \<noteq> None"
    by (metis nth_mem option.distinct(1))
  with Some show ?thesis by auto
qed

lemma nanargmax_None: "nanargmax vs = None \<longleftrightarrow> (\<forall>v\<in>set vs. v = None)"
  using first_best_None_iff [OF arg_scan_start [of "\<lambda>v w. w < v" vs]]
  by (simp add: nanargmax_def)

lemma nanargmin_None: "nanargmin vs = None \<longleftrightarrow> (\<forall>v\<in>set vs. v = None)"
  using first_best_None_iff [OF arg_scan_start [of "\<lambda>v w. v < w" vs]]
  by (simp add: nanargmin_def)

section \<open>The funnel metrics\<close>

lemma nunique_card: "nunique xs = card (set xs)"
  by (simp add: nunique_def length_remdups_card_conv)

lemma metrics_entry_cong:
  "(i > 0 \<Longrightarrow> acc ! (i - 1) = acc' ! (i - 1)) \<Longrightarrow>
     metrics_entry df t i s acc = metrics_entry df t i s acc'"
  by (cases i) (simp_all add: metrics_entry_def Let_def)

lemma metrics_loop_step:
  "metrics_loop df t i (s # ss) acc =
     metrics_loop df t (Suc i) ss (acc @ [metrics_entry df t i s acc])"
  by (simp add: metrics_entry_def Let_def)

lemma length_metrics_loop:
  "length (metrics_loop df t i ss acc) = length acc + length ss"
  by (induction ss arbitrary: i acc) (simp_all add: Let_def)

lemma metrics_loop_prefix:
  "j < length acc \<Longrightarrow> metrics_loop df t i ss acc ! j = acc ! j"
proof (induction ss arbitrary: i acc)
  case Nil
  then show ?case by simp
next
  case (Cons s ss)
  have "metrics_loop df t (Suc i) ss (acc @ [metrics_entry df t i s acc]) ! j
          = (acc @ [metrics_entry df t i s acc]) ! j"
    using Cons.prems by (intro Cons.IH) simp
  with Cons.prems show ?case
    by (simp add: metrics_loop_step nth_append del: metrics_loop.simps)
qed

lemma metrics_loop_nth:
  "j < length ss \<Longrightarrow>
     metrics_loop df t (length acc) ss acc ! (length acc + j)
       = metrics_entry df t (length acc + j) (ss ! j) (metrics_loop df t (length acc) ss acc)"
proof (induction ss arbitrary: acc j)
  case Nil
  then show ?case by simp
next
  case (Cons s ss)
  let ?e = "metrics_entry df t (length acc) s acc"
  let ?acc' = "acc @ [?e]"
  let ?res = "metrics_loop df t (length ?acc') ss ?acc'"
  have res: "metrics_loop df t (length acc) (s # ss) acc = ?res"
    by (simp add: metrics_loop_step del: metrics_loop.simps)
  show ?case
  proof (cases j)
    case 0
    have "?res ! length acc = ?acc' ! length acc"
      by (rule metrics_loop_prefix) simp
    then have at: "?res ! length acc = ?e" by simp
    have "length acc > 0 \<Longrightarrow> ?res ! (length acc - 1) = acc ! (length acc - 1)"
    proof -
      assume pos: "length acc > 0"
      have "?res ! (length acc - 1) = ?acc' ! (length acc - 1)"
        by (rule metrics_loop_prefix) simp
      with pos show ?thesis by (simp add: nth_append)
    qed
    then have "?e = metrics_entry df t (length acc) s ?res"
      by (intro metrics_entry_cong) simp
    with 0 at res show ?thesis by simp
  next
    case (Suc k)
    with Cons.prems have k: "k < length ss" by simp
    from Cons.IH [OF k, of ?acc'] Suc res show ?thesis by simp
  qed
qed

lemma funnel_metrics_length: "length (funnel_metrics df stages) = length stages"
  by (simp add: funnel_metrics_def length_metrics_loop)

lemma funnel_metrics_nth:
  "i < length stages \<Longrightarrow>
     funnel_metrics df stages ! i
       = metrics_entry df (nunique (map fe_user_id df)) i (stages ! i) (funnel_metrics df stages)"
  using metrics_loop_nth [of i stages df "nunique (map fe_user_id df)" "[]"]
  by (simp add: funnel_metrics_def)

lemma stage_users_card:
  "nunique [fe_user_id e. e \<leftarrow> df, fe_stage e = s]
     = card {fe_user_id e |e. e \<in> set df \<and> fe_stage e = s}"
proof -
  have "set [fe_user_id e. e \<leftarrow> df, fe_stage e = s]
          = {fe_user_id e |e. e \<in> set df \<and> fe_stage e = s}"
    by auto
  then show ?thesis by (simp add: nunique_card)
qed

lemma funnel_metrics_users:
  "i < length stages \<Longrightarrow>
     users (funnel_metrics df stages ! i)
       = card {fe_user_id e |e. e \<in> set df \<and> fe_stage e = stages ! i}"
  by (simp add: funnel_metrics_nth [of i stages df] metrics_entry_def stage_users_card Let_def)

lemma funnel_metrics_stage:
  "i < length stages \<Longrightarrow> stage (funnel_metrics df stages ! i) = stages ! i"
  by (simp add: funnel_metrics_nth [of i stages df] metrics_entry_def Let_def)

lemma funnel_metrics_stage_conversion:
  "i < length stages \<Longrightarrow>
     stage_conversion (funnel_metrics df stages ! i)
       = (if i > 0
          then (if users (funnel_metrics df stages ! (i - 1)) > 0
                then real (users (funnel_metrics df stages ! i))
                       / real (users (funnel_metrics df stages ! (i - 1))) * 100
                else 0)
          else 100)"
proof -
  assume i: "i < length stages"
  let ?ms = "funnel_metrics df stages"
  let ?e = "metrics_entry df (nunique (map fe_user_id df)) i (stages ! i) ?ms"
  have e: "?ms ! i = ?e"
    using i by (rule funnel_metrics_nth)
  have "stage_conversion ?e
          = (if i > 0
             then (if users (?ms ! (i - 1)) > 0
                   then real (users ?e) / real (users (?ms ! (i - 1))) * 100 else 0)
             else 100)"
    by (simp add: metrics_entry_def Let_def)
  then show ?thesis
    by (simp only: e [symmetric])
qed

text \<open>
  Claim C3. The funnel metrics have one entry per configured stage, in that order; the
  entry of stage \<open>i\<close> holds the number of distinct users with a record at that stage;
  the first stage's \<open>stage_conversion\<close> is 100, and for \<open>i > 0\<close> it is the count of
  stage \<open>i\<close> divided by the count of stage \<open>i - 1\<close>, times 100, when the latter is
  positive, and 0 when it is 0.
\<close>

theorem stage_conversion_formula:
  assumes "i < length stages"
  shows "length (funnel_metrics df stages) = length stages
     \<and> stage (funnel_metrics df stages ! i) = stages ! i
     \<and> users (funnel_metrics df stages ! i)
         = card {fe_user_id e |e. e \<in> set df \<and> fe_stage e = stages ! i}
     \<and> stage_conversion (funnel_metrics df stages ! i)
         = (if i = 0 then 100
            else if card {fe_user_id e |e. e \<in> set df \<and> fe_stage e = stages ! (i - 1)} > 0
            then real (card {fe_user_id e |e. e \<in> set df \<and> fe_stage e = stages ! i})
                   / real (card {fe_user_id e |e. e \<in> set df \<and> fe_stage e = stages ! (i - 1)})
                   * 100
            else 0)"
proof -
  have prev: "i > 0 \<Longrightarrow> users (funnel_metrics df stages ! (i - 1))
      = card {fe_user_id e |e. e \<in> set df \<and> fe_stage e = stages ! (i - 1)}"
    using assms by (intro funnel_metrics_users) simp
  have cur: "users (funnel_metrics df stages ! i)
      = card {fe_user_id e |e. e \<in> set df \<and> fe_stage e = stages ! i}"
    using assms by (rule funnel_metrics_users)
  have "stage_conversion (funnel_metrics df stages ! i)
         = (if i = 0 then 100
            else if card {fe_user_id e |e. e \<in> set df \<and> fe_stage e = stages ! (i - 1)} > 0
            then real (card {fe_user_id e |e. e \<in> set df \<and> fe_stage e = stages ! i})
                   / real (card {fe_user_id e |e. e \<in> set df \<and> fe_stage e = stages ! (i - 1)})
                   * 100
            else 0)"
  proof (cases "i = 0")
    case True
    with assms show ?thesis
      by (simp add: funnel_metrics_stage_conversion)
  next
    case False
    then have pos: "i > 0" by simp
    show ?thesis
      using False
      by (simp only: funnel_metrics_stage_conversion [OF assms] prev [OF pos] cur pos if_True if_False)
  qed
  with cur assms show ?thesis
    by (simp add: funnel_metrics_length funnel_metrics_stage)
qed

text \<open>
  Claim C7. For consecutive configured stages \<open>i - 1\<close> and \<open>i\<close> the reported drop-off is
  the count of stage \<open>i - 1\<close> minus the count of stage \<open>i\<close> (as integers), and the rate
  is that difference divided by the count of stage \<open>i - 1\<close>, times 100, when that count
  is positive, and 0 when it is 0.
\<close>

theorem dropoff_formula:
  assumes "0 < i" and "i < length stages"
  shows "length (dropoffs (funnel_metrics df stages)) = length stages - 1
     \<and> dropoffs (funnel_metrics df stages) ! (i - 1)
         = (int (card {fe_user_id e |e. e \<in> set df \<and> fe_stage e = stages ! (i - 1)})
              - int (card {fe_user_id e |e. e \<in> set df \<and> fe_stage e = stages ! i}),
            if card {fe_user_id e |e. e \<in> set df \<and> fe_stage e = stages ! (i - 1)} > 0
            then (real (card {fe_user_id e |e. e \<in> set df \<and> fe_stage e = stages ! (i - 1)})
                    - real (card {fe_user_id e |e. e \<in> set df \<and> fe_stage e = stages ! i}))
                   / real (card {fe_user_id e |e. e \<in> set df \<and> fe_stage e = stages ! (i - 1)})
                   * 100
            else 0)"
proof -
  let ?ms = "funnel_metrics df stages"
  from assms have prev: "users (?ms ! (i - 1))
      = card {fe_user_id e |e. e \<in> set df \<and> fe_stage e = stages ! (i - 1)}"
    by (intro funnel_metrics_users) simp
  from assms have cur: "users (?ms ! i)
      = card {fe_user_id e |e. e \<in> set df \<and> fe_stage e = stages ! i}"
    by (intro funnel_metrics_users)
  have len: "length (dropoffs ?ms) = length stages - 1"
    by (simp add: dropoffs_def funnel_metrics_length)
  from assms have "dropoffs ?ms ! (i - 1) = dropoff_at ?ms (i - 1)"
    by (simp add: dropoffs_def funnel_metrics_length)
  also from assms have "\<dots> = (int (users (?ms ! (i - 1))) - int (users (?ms ! i)),
      if users (?ms ! (i - 1)) > 0
      then (real (users (?ms ! (i - 1))) - real (users (?ms ! i)))
             / real (users (?ms ! (i - 1))) * 100
      else 0)"
    by (simp add: dropoff_at_def Let_def)
  finally show ?thesis
    using len by (simp only: prev cur simp_thms)
qed

lemma idxmin_tail:
  assumes "2 \<le> length ms"
  shows "\<exists>b. idxmin [1 ..< length ms] (map (Some \<circ> f) (drop 1 ms)) = Some b
            \<and> 1 \<le> b \<and> b < length ms
            \<and> (\<forall>j. 1 \<le> j \<and> j < length ms \<longrightarrow> f (ms ! b) \<le> f (ms ! j))
            \<and> (\<forall>j. 1 \<le> j \<and> j < b \<longrightarrow> f (ms ! b) < f (ms ! j))"
proof -
  let ?vs = "map (Some \<circ> f) (drop 1 ms)"
  have len: "length ?vs = length ms - 1" by simp
  have nth: "\<And>k. k < length ms - 1 \<Longrightarrow> ?vs ! k = Some (f (ms ! (k + 1)))"
    by simp
  from assms have "?vs \<noteq> []" by (cases ms) auto
  then have "nanargmin ?vs \<noteq> None"
    unfolding nanargmin_None by (cases ?vs) auto
  then obtain p where p: "nanargmin ?vs = Some p" by blast
  from nanargmin_first [OF p] obtain w where
    plt: "p < length ms - 1" and w: "?vs ! p = Some w"
    and least: "\<forall>j<length ?vs. \<forall>v. ?vs ! j = Some v \<longrightarrow> w \<le> v"
    and first: "\<forall>j<p. \<forall>v. ?vs ! j = Some v \<longrightarrow> w < v"
    unfolding len by blast
  from w nth [OF plt] have wv: "w = f (ms ! (p + 1))" by simp
  have a: "f (ms ! (p + 1)) \<le> f (ms ! j)" if "1 \<le> j" "j < length ms" for j
  proof -
    from that have "j - 1 < length ?vs" "?vs ! (j - 1) = Some (f (ms ! j))"
      by (simp_all add: nth)
    with least wv show ?thesis by blast
  qed
  have b: "f (ms ! (p + 1)) < f (ms ! j)" if "1 \<le> j" "j < p + 1" for j
  proof -
    from that plt have "j - 1 < p" "?vs ! (j - 1) = Some (f (ms ! j))"
      by (simp_all add: nth)
    with first wv show ?thesis by blast
  qed
  from plt have "[1 ..< length ms] ! p = p + 1" by simp
  with p have "idxmin [1 ..< length ms] ?vs = Some (p + 1)"
    by (simp add: idxmin_def)
  with plt a b show ?thesis by auto
qed

lemma idxmax_tail:
  assumes "2 \<le> length ms"
  shows "\<exists>b. idxmax [1 ..< length ms] (map (Some \<circ> f) (drop 1 ms)) = Some b
            \<and> 1 \<le> b \<and> b < length ms
            \<and> (\<forall>j. 1 \<le> j \<and> j < length ms \<longrightarrow> f (ms ! j) \<le> f (ms ! b))
            \<and> (\<forall>j. 1 \<le> j \<and> j < b \<longrightarrow> f (ms ! j) < f (ms ! b))"
proof -
  let ?vs = "map (Some \<circ> f) (drop 1 ms)"
  have len: "length ?vs = length ms - 1" by simp
  have nth: "\<And>k. k < length ms - 1 \<Longrightarrow> ?vs ! k = Some (f (ms ! (k + 1)))"
    by simp
  from assms have "?vs \<noteq> []" by (cases ms) auto
  then have "nanargmax ?vs \<noteq> None"
    unfolding nanargmax_None by (cases ?vs) auto
  then obtain p where p: "nanargmax ?vs = Some p" by blast
  from nanargmax_first [OF p] obtain w where
    plt: "p < length ms - 1" and w: "?vs ! p = Some w"
    and greatest: "\<forall>j<length ?vs. \<forall>v. ?vs ! j = Some v \<longrightarrow> v \<le> w"
    and first: "\<forall>j<p. \<forall>v. ?vs ! j = Some v \<longrightarrow> v < w"
    unfolding len by blast
  from w nth [OF plt] have wv: "w = f (ms ! (p + 1))" by simp
  have a: "f (ms ! j) \<le> f (ms ! (p + 1))" if "1 \<le> j" "j < length ms" for j
  proof -
    from that have "j - 1 < length ?vs" "?vs ! (j - 1) = Some (f (ms ! j))"
      by (simp_all add: nth)
    with greatest wv show ?thesis by blast
  qed
  have b: "f (ms ! j) < f (ms ! (p + 1))" if "1 \<le> j" "j < p + 1" for j
  proof -
    from that plt have "j - 1 < p" "?vs ! (j - 1) = Some (f (ms ! j))"
      by (simp_all add: nth)
    with first wv show ?thesis by blast
  qed
  from plt have "[1 ..< length ms] ! p = p + 1" by simp
  with p have "idxmax [1 ..< length ms] ?vs = Some (p + 1)"
    by (simp add: idxmax_def)
  with plt a b show ?thesis by auto
qed

text \<open>
  Claim C8. With at least two configured stages, the biggest drop-off is reported at a
  stage other than the first whose \<open>stage_conversion\<close> is lowest among those stages, the
  best conversion at one whose \<open>stage_conversion\<close> is highest, and every earlier stage
  other than the first is strictly worse: the first occurrence wins a tie.
\<close>

theorem biggest_dropoff_and_best_stage:
  assumes "2 \<le> length stages"
  shows "\<exists>b g. biggest_dropoff_idx (funnel_metrics df stages) = Some b
      \<and> best_stage_idx (funnel_metrics df stages) = Some g
      \<and> 1 \<le> b \<and> b < length stages \<and> 1 \<le> g \<and> g < length stages
      \<and> stage (funnel_metrics df stages ! b) = stages ! b
      \<and> stage (funnel_metrics df stages ! g) = stages ! g
      \<and> (\<forall>j. 1 \<le> j \<and> j < length stages \<longrightarrow>
            stage_conversion (funnel_metrics df stages ! b)
              \<le> stage_conversion (funnel_metrics df stages ! j)
          \<and> stage_conversion (funnel_metrics df stages ! j)
              \<le> stage_conversion (funnel_metrics df stages ! g))
      \<and> (\<forall>j. 1 \<le> j \<and> j < b \<longrightarrow>
            stage_conversion (funnel_metrics df stages ! b)
              < stage_conversion (funnel_metrics df stages ! j))
      \<and> (\<forall>j. 1 \<le> j \<and> j < g \<longrightarrow>
            stage_conversion (funnel_metrics df stages ! j)
              < stage_conversion (funnel_metrics df stages ! g))"
proof -
  let ?ms = "funnel_metrics df stages"
  from assms have len: "2 \<le> length ?ms"
    by (simp add: funnel_metrics_length)
  from idxmin_tail [OF len, of stage_conversion] obtain b where
    b: "biggest_dropoff_idx ?ms = Some b" "1 \<le> b" "b < length stages"
    and bmin: "\<forall>j. 1 \<le> j \<and> j < length stages \<longrightarrow>
                 stage_conversion (?ms ! b) \<le> stage_conversion (?ms ! j)"
    and bfirst: "\<forall>j. 1 \<le> j \<and> j < b \<longrightarrow>
                 stage_conversion (?ms ! b) < stage_conversion (?ms ! j)"
    unfolding biggest_dropoff_idx_def funnel_metrics_length by blast
  from idxmax_tail [OF len, of stage_conversion] obtain g where
    g: "best_stage_idx ?ms = Some g" "1 \<le> g" "g < length stages"
    and gmax: "\<forall>j. 1 \<le> j \<and> j < length stages \<longrightarrow>
                 stage_conversion (?ms ! j) \<le> stage_conversion (?ms ! g)"
    and gfirst: "\<forall>j. 1 \<le> j \<and> j < g \<longrightarrow>
                 stage_conversion (?ms ! j) < stage_conversion (?ms ! g)"
    unfolding best_stage_idx_def funnel_metrics_length by blast
  have "stage (?ms ! b) = stages ! b" "stage (?ms ! g) = stages ! g"
    using b g by (simp_all add: funnel_metrics_stage)
  with b g bmin bfirst gmax gfirst show ?thesis
    by blast
qed


lemma funnel_example_metrics:
  "funnel_metrics funnel_example funnel_example_stages =
     [\<lparr>stage = ''lead'', users = 3, overall_conversion = 100, stage_conversion = 100\<rparr>,
      \<lparr>stage = ''qualified'', users = 2, overall_conversion = 200 / 3,
        stage_conversion = 200 / 3\<rparr>,
      \<lparr>stage = ''closed'', users = 1, overall_conversion = 100 / 3, stage_conversion = 50\<rparr>]"
  by (simp add: funnel_example_def funnel_example_stages_def funnel_metrics_def nunique_def)

lemma funnel_example_cards:
  "card {fe_user_id e |e. e \<in> set funnel_example \<and> fe_stage e = funnel_example_stages ! 0} = 3"
  "card {fe_user_id e |e. e \<in> set funnel_example \<and> fe_stage e = funnel_example_stages ! 1} = 2"
  "card {fe_user_id e |e. e \<in> set funnel_example \<and> fe_stage e = funnel_example_stages ! 2} = 1"
proof -
  have len: "0 < length funnel_example_stages" "1 < length funnel_example_stages"
    "2 < length funnel_example_stages"
    by (simp_all add: funnel_example_stages_def)
  show "card {fe_user_id e |e. e \<in> set funnel_example \<and> fe_stage e = funnel_example_stages ! 0} = 3"
    using funnel_metrics_users [OF len(1), of funnel_example]
    by (simp add: funnel_example_metrics)
  show "card {fe_user_id e |e. e \<in> set funnel_example \<and> fe_stage e = funnel_example_stages ! 1} = 2"
    using funnel_metrics_users [OF len(2), of funnel_example]
    by (simp add: funnel_example_metrics)
  show "card {fe_user_id e |e. e \<in> set funnel_example \<and> fe_stage e = funnel_example_stages ! 2} = 1"
    using funnel_metrics_users [OF len(3), of funnel_example]
    by (simp add: funnel_example_metrics)
qed

text \<open>The funnel scenario as an instance of C3: the second stage converts two of three.\<close>

theorem stage_conversion_formula_witness:
  "1 < length funnel_example_stages
   \<and> users (funnel_metrics funnel_example funnel_example_stages ! 1) = 2
   \<and> stage_conversion (funnel_metrics funnel_example funnel_example_stages ! 1) = 200 / 3"
proof -
  have len: "1 < length funnel_example_stages"
    by (simp add: funnel_example_stages_def)
  have "(1::nat) - 1 = 0" by simp
  with stage_conversion_formula [OF len, of funnel_example] len show ?thesis
    by (simp only: funnel_example_cards) simp
qed

text \<open>The funnel scenario as an instance of C7: one user of three is lost after the first
  stage.\<close>

theorem dropoff_formula_witness:
  "0 < (1::nat) \<and> 1 < length funnel_example_stages
   \<and> dropoffs (funnel_metrics funnel_example funnel_example_stages) ! 0 = (1, 100 / 3)"
proof -
  have len: "1 < length funnel_example_stages"
    by (simp add: funnel_example_stages_def)
  have one: "0 < (1::nat)" and sub: "(1::nat) - 1 = 0" by simp_all
  from dropoff_formula [OF one len, of funnel_example] len show ?thesis
    by (simp only: funnel_example_cards sub) simp
qed

text \<open>The funnel scenario as an instance of C8.\<close>

theorem biggest_dropoff_and_best_stage_witness:
  "2 \<le> length funnel_example_stages
   \<and> biggest_dropoff_idx (funnel_metrics funnel_example funnel_example_stages) = Some 2
   \<and> best_stage_idx (funnel_metrics funnel_example funnel_example_stages) = Some 1"
proof -
  let ?ms = "funnel_metrics funnel_example funnel_example_stages"
  have len: "2 \<le> length funnel_example_stages" and len3: "length funnel_example_stages = 3"
    by (simp_all add: funnel_example_stages_def)
  have c: "stage_conversion (?ms ! 1) = 200 / 3" "stage_conversion (?ms ! 2) = 50"
    by (simp_all add: funnel_example_metrics)
  from biggest_dropoff_and_best_stage [OF len, of funnel_example] obtain b g where
    b: "biggest_dropoff_idx ?ms = Some b"
    and g: "best_stage_idx ?ms = Some g"
    and rng: "1 \<le> b" "b < 3" "1 \<le> g" "g < 3"
    and ext: "\<forall>j. 1 \<le> j \<and> j < 3 \<longrightarrow>
            stage_conversion (?ms ! b) \<le> stage_conversion (?ms ! j)
          \<and> stage_conversion (?ms ! j) \<le> stage_conversion (?ms ! g)"
    unfolding len3 by blast
  from rng have bb: "b = 1 \<or> b = 2" and gg: "g = 1 \<or> g = 2" by auto
  have "(1::nat) \<le> 2 \<and> (2::nat) < 3" "(1::nat) \<le> 1 \<and> (1::nat) < 3" by simp_all
  with ext have e1: "stage_conversion (?ms ! b) \<le> stage_conversion (?ms ! 2)"
    and e2: "stage_conversion (?ms ! 1) \<le> stage_conversion (?ms ! g)"
    by blast+
  from bb e1 c have "b = 2" by auto
  moreover from gg e2 c have "g = 1" by auto
  ultimately show ?thesis using b g len by simp
qed

section \<open>The cohort tables\<close>

subsection \<open>First dates\<close>

lemma fold_min_Min: "fold min ds (d::timestamp) = Min (insert d (set ds))"
  using Min.set_eq_fold [of d ds] by simp

lemma first_date_Min:
  "first_date df e = Min (insert (date e) {date e' |e'. e' \<in> set df \<and> user_id e' = user_id e})"
proof -
  have "set [date e'. e' \<leftarrow> df, user_id e' = user_id e]
          = {date e' |e'. e' \<in> set df \<and> user_id e' = user_id e}"
    by auto
  then show ?thesis
    by (simp add: first_date_def fold_min_Min)
qed

lemma finite_user_dates: "finite {date e' |e'. e' \<in> set df \<and> user_id e' = u}"
proof -
  have "{date e' |e'. e' \<in> set df \<and> user_id e' = u} \<subseteq> date ` set df"
    by auto
  then show ?thesis
    by (rule finite_subset) simp
qed

lemma first_date_le: "first_date df e \<le> date e"
  by (simp add: first_date_Min finite_user_dates)

lemma first_date_same_user:
  assumes "e \<in> set df" "e' \<in> set df" "user_id e' = user_id e"
  shows "first_date df e' = first_date df e"
proof -
  let ?D = "{date x |x. x \<in> set df \<and> user_id x = user_id e}"
  from assms have "insert (date e) ?D = ?D" "insert (date e') ?D = ?D"
    by auto
  with assms(3) show ?thesis
    by (simp add: first_date_Min)
qed

lemma first_date_attained:
  assumes "e \<in> set df"
  shows "\<exists>e'\<in>set df. user_id e' = user_id e \<and> date e' = first_date df e"
proof -
  let ?D = "{date x |x. x \<in> set df \<and> user_id x = user_id e}"
  from assms have ins: "insert (date e) ?D = ?D" by blast
  from assms have "?D \<noteq> {}" by blast
  then have "Min ?D \<in> ?D"
    by (intro Min_in finite_user_dates)
  then have "\<exists>x. Min ?D = date x \<and> x \<in> set df \<and> user_id x = user_id e"
    unfolding mem_Collect_eq .
  then obtain x where "x \<in> set df" "user_id x = user_id e" "date x = Min ?D"
    by metis
  moreover have "first_date df e = Min ?D"
    by (simp only: first_date_Min ins)
  ultimately show ?thesis by metis
qed

lemma to_period_M_mono: "a \<le> b \<Longrightarrow> to_period_M a \<le> to_period_M b"
  by (auto simp: to_period_M_def less_eq_prod_def)

lemma period_number_nonneg: "0 \<le> period_number df e"
  using to_period_M_mono [OF first_date_le [of df e]]
  by (simp add: period_number_def activity_month_def cohort_month_def)

lemma period_zero_exists:
  assumes "e \<in> set df"
  shows "\<exists>e'\<in>set df. user_id e' = user_id e \<and> group_key df e' = (cohort_month df e, 0)"
proof -
  from first_date_attained [OF assms] obtain e' where
    e': "e' \<in> set df" "user_id e' = user_id e" "date e' = first_date df e"
    by blast
  from first_date_same_user [OF assms e'(1,2)] have same: "first_date df e' = first_date df e" .
  with e'(3) have "group_key df e' = (cohort_month df e, 0)"
    by (simp add: group_key_def period_number_def activity_month_def cohort_month_def)
  with e' show ?thesis by blast
qed

lemma first_date_set_cong: "set df = set df' \<Longrightarrow> first_date df e = first_date df' e"
  by (simp add: first_date_Min)

lemma group_key_set_cong: "set df = set df' \<Longrightarrow> group_key df e = group_key df' e"
  by (simp add: group_key_def period_number_def cohort_month_def first_date_set_cong [of df df'])

subsection \<open>The grouped counts\<close>

lemma group_users_card:
  "nunique [user_id e. e \<leftarrow> df, group_key df e = k]
     = card {user_id e |e. e \<in> set df \<and> group_key df e = k}"
proof -
  have "set [user_id e. e \<leftarrow> df, group_key df e = k]
          = {user_id e |e. e \<in> set df \<and> group_key df e = k}"
    by auto
  then show ?thesis
    by (simp add: nunique_def length_remdups_card_conv)
qed

lemma cohort_data_alt:
  "cohort_data df =
     map (\<lambda>k. (k, card {user_id e |e. e \<in> set df \<and> group_key df e = k}))
       (sorted_list_of_set (group_key df ` set df))"
proof -
  have "sort (remdups (map (group_key df) df)) = sorted_list_of_set (group_key df ` set df)"
    using sorted_list_of_set_sort_remdups [of "map (group_key df) df"] by simp
  then show ?thesis
    by (simp add: cohort_data_def group_users_card)
qed

lemma cohort_data_set_cong:
  assumes "set df = set df'"
  shows "cohort_data df = cohort_data df'"
proof -
  have "group_key df = group_key df'"
    using group_key_set_cong [OF assms] by (simp add: fun_eq_iff)
  with assms show ?thesis
    by (simp add: cohort_data_alt)
qed

lemma cohort_count_eq:
  "cohort_count df c p =
     (if (c, p) \<in> group_key df ` set df
      then Some (card {user_id e |e. e \<in> set df \<and> group_key df e = (c, p)})
      else None)"
  by (simp add: cohort_count_def cohort_data_alt map_of_map_restrict restrict_map_def)

lemma cohort_count_pos:
  assumes "cohort_count df c p = Some n"
  shows "0 < n"
proof -
  from assms have mem: "(c, p) \<in> group_key df ` set df"
    and n: "n = card {user_id e |e. e \<in> set df \<and> group_key df e = (c, p)}"
    by (auto simp: cohort_count_eq split: if_splits)
  have "{user_id e |e. e \<in> set df \<and> group_key df e = (c, p)}
          \<subseteq> user_id ` set df"
    by auto
  then have fin: "finite {user_id e |e. e \<in> set df \<and> group_key df e = (c, p)}"
    by (rule finite_subset) simp
  from mem have "{user_id e |e. e \<in> set df \<and> group_key df e = (c, p)} \<noteq> {}"
    by auto
  with fin n show ?thesis
    by (simp add: card_gt_0_iff)
qed

lemma cohort_count_zero_period:
  assumes "cohort_count df c p = Some n"
  shows "\<exists>m. cohort_count df c 0 = Some m \<and> 0 < m"
proof -
  from assms obtain e where e: "e \<in> set df" "group_key df e = (c, p)"
    by (auto simp: cohort_count_eq split: if_splits)
  then have c: "cohort_month df e = c"
    by (simp add: group_key_def)
  from period_zero_exists [OF e(1)] c have "(c, 0) \<in> group_key df ` set df"
    by force
  then obtain m where m: "cohort_count df c 0 = Some m"
    by (simp add: cohort_count_eq)
  with cohort_count_pos [OF m] show ?thesis by blast
qed

subsection \<open>Tabulated frames\<close>

lemma tabulate_sel [simp]:
  "index (tabulate idx cols f) = idx"
  "columns (tabulate idx cols f) = cols"
  "vals (tabulate idx cols f) = map (\<lambda>c. map (f c) cols) idx"
  by (simp_all add: tabulate_def)

lemma cell_tabulate:
  "cell (tabulate idx cols f) c p = (if c \<in> set idx \<and> p \<in> set cols then f c p else None)"
  by (simp add: cell_def map_of_zip_map)

lemma map2_same: "map2 h (map f xs) (map g xs) = map (\<lambda>x. h (f x) (g x)) xs"
  by (induction xs) simp_all

lemma iloc_col_tabulate:
  "j < length cols \<Longrightarrow> iloc_col (tabulate idx cols f) j = Inr (map (\<lambda>c. f c (cols ! j)) idx)"
  by (simp add: iloc_col_def)

lemma iloc_cols_tabulate:
  "iloc_cols (tabulate idx cols f) a b = tabulate idx (take (b - a) (drop a cols)) f"
  by (simp add: iloc_cols_def tabulate_def take_map drop_map)

lemma divide_axis0_tabulate:
  "divide_axis0 (tabulate idx cols f) (map g idx)
     = tabulate idx cols
         (\<lambda>c p. case (f c p, g c) of
                   (Some n, Some m) \<Rightarrow> if m = 0 then None else Some (real n / real m)
                 | _ \<Rightarrow> None)"
  by (simp add: divide_axis0_def tabulate_def map2_same)

lemma times_tabulate:
  "times (tabulate idx cols f) k = tabulate idx cols (\<lambda>c p. map_option (\<lambda>x. x * k) (f c p))"
  by (simp add: times_def tabulate_def)

lemma mean_axis1_tabulate:
  "mean_axis1 (tabulate idx cols f) = map (\<lambda>c. mean_skipna (map (f c) cols)) idx"
  by (simp add: mean_axis1_def)

lemma mean_axis0_tabulate:
  "mean_axis0 (tabulate idx cols f) = map (\<lambda>p. (p, mean_skipna (map (\<lambda>c. f c p) idx))) cols"
proof -
  have "map (\<lambda>j. (cols ! j, mean_skipna (map (\<lambda>row. row ! j) (map (\<lambda>c. map (f c) cols) idx))))
            [0 ..< length cols]
        = map (\<lambda>j. (\<lambda>p. (p, mean_skipna (map (\<lambda>c. f c p) idx))) (cols ! j)) [0 ..< length cols]"
    by (rule map_cong) (simp_all add: comp_def)
  also have "\<dots> = map (\<lambda>p. (p, mean_skipna (map (\<lambda>c. f c p) idx))) (map ((!) cols) [0 ..< length cols])"
    by (simp only: map_map comp_def)
  also have "\<dots> = map (\<lambda>p. (p, mean_skipna (map (\<lambda>c. f c p) idx))) cols"
    by (simp only: map_nth)
  finally show ?thesis
    by (simp add: mean_axis0_def)
qed

subsection \<open>The pivot of the grouped counts\<close>

lemma pivot_cohort_data:
  "pivot (cohort_data df) = tabulate (cohort_index df) (period_columns df) (cohort_count df)"
proof -
  have keys: "map fst (cohort_data df) = sorted_list_of_set (group_key df ` set df)"
    by (simp add: cohort_data_alt comp_def)
  have s1: "set (map (fst \<circ> fst) (cohort_data df)) = cohort_month df ` set df"
  proof -
    have "set (map (fst \<circ> fst) (cohort_data df)) = fst ` set (map fst (cohort_data df))"
      by (simp add: image_comp)
    also have "\<dots> = fst ` group_key df ` set df"
      by (simp only: keys) simp
    also have "\<dots> = cohort_month df ` set df"
      by (simp add: image_comp comp_def group_key_def)
    finally show ?thesis .
  qed
  have s2: "set (map (snd \<circ> fst) (cohort_data df)) = period_number df ` set df"
  proof -
    have "set (map (snd \<circ> fst) (cohort_data df)) = snd ` set (map fst (cohort_data df))"
      by (simp add: image_comp)
    also have "\<dots> = snd ` group_key df ` set df"
      by (simp only: keys) simp
    also have "\<dots> = period_number df ` set df"
      by (simp add: image_comp comp_def group_key_def)
    finally show ?thesis .
  qed
  have i: "sort (remdups (map (fst \<circ> fst) (cohort_data df))) = cohort_index df"
    using sorted_list_of_set_sort_remdups [of "map (fst \<circ> fst) (cohort_data df)"]
    by (simp only: s1 cohort_index_def)
  have c: "sort (remdups (map (snd \<circ> fst) (cohort_data df))) = period_columns df"
    using sorted_list_of_set_sort_remdups [of "map (snd \<circ> fst) (cohort_data df)"]
    by (simp only: s2 period_columns_def)
  have cnt: "(\<lambda>c. map (\<lambda>p. map_of (cohort_data df) (c, p)) (period_columns df))
      = (\<lambda>c. map (cohort_count df c) (period_columns df))"
    by (simp add: fun_eq_iff cohort_count_def)
  show ?thesis
    by (simp only: pivot_def Let_def i c tabulate_def cnt)
qed

lemma set_cohort_index: "set (cohort_index df) = cohort_month df ` set df"
  by (simp add: cohort_index_def)

lemma set_period_columns: "set (period_columns df) = period_number df ` set df"
  by (simp add: period_columns_def)

lemma distinct_cohort_index: "distinct (cohort_index df)"
  by (simp add: cohort_index_def)

lemma period_columns_first:
  assumes "df \<noteq> []"
  shows "period_columns df \<noteq> [] \<and> period_columns df ! 0 = 0"
proof -
  from assms obtain e where e: "e \<in> set df" by (cases df) auto
  from period_zero_exists [OF e] have zero: "0 \<in> set (period_columns df)"
    by (force simp: set_period_columns group_key_def)
  then have ne: "period_columns df \<noteq> []" by auto
  have sorted: "sorted (period_columns df)"
    by (simp add: period_columns_def)
  have "\<forall>p\<in>set (period_columns df). 0 \<le> p"
    by (auto simp: set_period_columns period_number_nonneg)
  with ne have "0 \<le> period_columns df ! 0"
    by (cases "period_columns df") auto
  moreover from sorted zero ne have "period_columns df ! 0 \<le> 0"
    by (cases "period_columns df") auto
  ultimately show ?thesis using ne by simp
qed

lemma cohort_count_None_iff:
  "cohort_count df c p = None \<longleftrightarrow> \<not> (\<exists>e\<in>set df. cohort_month df e = c \<and> period_number df e = p)"
  by (auto simp: cohort_count_eq group_key_def image_iff)

lemma cohort_count_Some:
  "cohort_count df c p = Some n \<Longrightarrow>
     n = card {user_id e |e. e \<in> set df \<and> cohort_month df e = c \<and> period_number df e = p}"
  by (auto simp: cohort_count_eq group_key_def split: if_splits)

lemma cohort_count_labels:
  "cohort_count df c p = Some n \<Longrightarrow> c \<in> set (cohort_index df) \<and> p \<in> set (period_columns df)"
  by (auto simp: cohort_count_eq group_key_def set_cohort_index set_period_columns
           split: if_splits)

lemma cohort_analysis_tabulated:
  assumes "df \<noteq> []"
  shows "cohort_analysis df =
     Inr \<lparr>cohort_pivot = tabulate (cohort_index df) (period_columns df) (cohort_count df),
          cohort_sizes = map (\<lambda>c. cohort_count df c 0) (cohort_index df),
          retention = tabulate (cohort_index df) (period_columns df) (retention_rate df),
          avg_retention =
            map (\<lambda>p. (p, mean_skipna (map (\<lambda>c. retention_rate df c p) (cohort_index df))))
              (period_columns df),
          best_cohort =
            idxmax (cohort_index df)
              (map (\<lambda>c. mean_skipna (map (retention_rate df c)
                                      (take 5 (drop 1 (period_columns df)))))
                 (cohort_index df)),
          worst_cohort =
            idxmin (cohort_index df)
              (map (\<lambda>c. mean_skipna (map (retention_rate df c)
                                      (take 5 (drop 1 (period_columns df)))))
                 (cohort_index df))\<rparr>"
proof -
  let ?idx = "cohort_index df" and ?cols = "period_columns df"
  let ?pv = "tabulate ?idx ?cols (cohort_count df)"
  let ?sizes = "map (\<lambda>c. cohort_count df c 0) ?idx"
  let ?ret = "tabulate ?idx ?cols (retention_rate df)"
  from period_columns_first [OF assms] have ne: "0 < length ?cols" and z: "?cols ! 0 = 0"
    by simp_all
  have sizes: "iloc_col ?pv 0 = Inr ?sizes"
    using iloc_col_tabulate [OF ne, of ?idx "cohort_count df"] by (simp only: z)
  have rate: "(\<lambda>c p. map_option (\<lambda>x. x * 100)
                 (case (cohort_count df c p, cohort_count df c 0) of
                    (Some n, Some m) \<Rightarrow> if m = 0 then None else Some (real n / real m)
                  | _ \<Rightarrow> None))
              = retention_rate df"
    by (auto simp: fun_eq_iff retention_rate_def split: option.splits)
  have ret: "times (divide_axis0 ?pv ?sizes) 100 = ?ret"
    by (simp only: divide_axis0_tabulate times_tabulate rate)
  have cols: "iloc_cols ?ret 1 6 = tabulate ?idx (take 5 (drop 1 ?cols)) (retention_rate df)"
    by (simp add: iloc_cols_tabulate)
  have "cohort_analysis df =
      (case iloc_col ?pv 0 of
         Inl e \<Rightarrow> Inl e
       | Inr sizes \<Rightarrow>
           (let ret = times (divide_axis0 ?pv sizes) 100;
                cols_1_6 = iloc_cols ret 1 6
            in Inr \<lparr>cohort_pivot = ?pv, cohort_sizes = sizes, retention = ret,
                    avg_retention = mean_axis0 ret,
                    best_cohort = idxmax (index cols_1_6) (mean_axis1 cols_1_6),
                    worst_cohort = idxmin (index cols_1_6) (mean_axis1 cols_1_6)\<rparr>))"
    using assms by (simp add: cohort_analysis_def pivot_cohort_data Let_def)
  also have "\<dots> =
      Inr \<lparr>cohort_pivot = ?pv, cohort_sizes = ?sizes, retention = ?ret,
           avg_retention = mean_axis0 ?ret,
           best_cohort = idxmax (index (iloc_cols ?ret 1 6)) (mean_axis1 (iloc_cols ?ret 1 6)),
           worst_cohort = idxmin (index (iloc_cols ?ret 1 6)) (mean_axis1 (iloc_cols ?ret 1 6))\<rparr>"
    by (simp only: sizes sum.case Let_def ret)
  also have "\<dots> =
      Inr \<lparr>cohort_pivot = ?pv, cohort_sizes = ?sizes, retention = ?ret,
           avg_retention =
             map (\<lambda>p. (p, mean_skipna (map (\<lambda>c. retention_rate df c p) ?idx))) ?cols,
           best_cohort =
             idxmax ?idx (map (\<lambda>c. mean_skipna (map (retention_rate df c)
                                      (take 5 (drop 1 ?cols)))) ?idx),
           worst_cohort =
             idxmin ?idx (map (\<lambda>c. mean_skipna (map (retention_rate df c)
                                      (take 5 (drop 1 ?cols)))) ?idx)\<rparr>"
    by (simp only: cols mean_axis0_tabulate mean_axis1_tabulate tabulate_sel)
  finally show ?thesis .
qed

lemma cohort_analysis_nonempty: "cohort_analysis df = Inr r \<Longrightarrow> df \<noteq> []"
  by (auto simp: cohort_analysis_def)

lemma cohort_analysis_pivot:
  assumes "cohort_analysis df = Inr r"
  shows "cohort_pivot r = tabulate (cohort_index df) (period_columns df) (cohort_count df)"
    and "retention r = tabulate (cohort_index df) (period_columns df) (retention_rate df)"
    and "avg_retention r =
           map (\<lambda>p. (p, mean_skipna (map (\<lambda>c. retention_rate df c p) (cohort_index df))))
             (period_columns df)"
  using assms cohort_analysis_tabulated [OF cohort_analysis_nonempty [OF assms]]
  by auto

lemma retention_rate_Some:
  assumes "cohort_count df c p = Some n"
  shows "\<exists>m. cohort_count df c 0 = Some m \<and> 0 < m
            \<and> retention_rate df c p = Some (real n / real m * 100)"
proof -
  from cohort_count_zero_period [OF assms] obtain m where
    m: "cohort_count df c 0 = Some m" "0 < m" by blast
  with assms have "retention_rate df c p = Some (real n / real m * 100)"
    by (simp add: retention_rate_def)
  with m show ?thesis by blast
qed

lemma retention_rate_None_iff:
  "retention_rate df c p = None \<longleftrightarrow> cohort_count df c p = None"
proof (cases "cohort_count df c p")
  case None
  then show ?thesis by (simp add: retention_rate_def)
next
  case (Some n)
  from retention_rate_Some [OF Some] Some show ?thesis by auto
qed

lemma retention_rate_pos:
  assumes "retention_rate df c p = Some v"
  shows "0 < v"
proof -
  from assms obtain n where n: "cohort_count df c p = Some n"
    using retention_rate_None_iff [of df c p] by (cases "cohort_count df c p") auto
  from retention_rate_Some [OF n] obtain m where
    m: "0 < m" "retention_rate df c p = Some (real n / real m * 100)" by blast
  from cohort_count_pos [OF n] m assms show ?thesis by simp
qed

text \<open>
  Claim C1. For every (cohort month, elapsed period) pair that has a cell in the cohort
  table, the cell holds the number of distinct users of that cohort active in that
  period, the cohort has a positive count at period 0, and the retention cell is the
  former divided by the latter, times 100.
\<close>

theorem retention_formula:
  assumes "cohort_analysis df = Inr r"
      and "cell (cohort_pivot r) c p = Some n"
  shows "n = card {user_id e |e. e \<in> set df \<and> cohort_month df e = c \<and> period_number df e = p}
     \<and> (\<exists>n0. cell (cohort_pivot r) c 0 = Some n0
           \<and> n0 = card {user_id e |e. e \<in> set df \<and> cohort_month df e = c
                                     \<and> period_number df e = 0}
           \<and> 0 < n0
           \<and> cell (retention r) c p = Some (real n / real n0 * 100))"
proof -
  note tab = cohort_analysis_pivot [OF assms(1)]
  from assms(2) have cnt: "cohort_count df c p = Some n"
    and c: "c \<in> set (cohort_index df)" and p: "p \<in> set (period_columns df)"
    by (simp_all add: tab cell_tabulate split: if_splits)
  from retention_rate_Some [OF cnt] obtain m where
    m: "cohort_count df c 0 = Some m" "0 < m"
    and rate: "retention_rate df c p = Some (real n / real m * 100)"
    by blast
  from cohort_count_labels [OF m(1)] have z: "0 \<in> set (period_columns df)" by simp
  have "cell (cohort_pivot r) c 0 = Some m"
    using c z m by (simp add: tab cell_tabulate)
  moreover have "cell (retention r) c p = Some (real n / real m * 100)"
    using c p rate by (simp add: tab cell_tabulate)
  moreover note cohort_count_Some [OF cnt] cohort_count_Some [OF m(1)] m(2)
  ultimately show ?thesis by blast
qed

text \<open>
  Claim C2. On every non-empty input the script produces its tables, the rows of the
  retention table are the cohort months that occur (at least one), and the retention of
  every row at period 0 exists and is exactly 100.
\<close>

theorem period_zero_is_100:
  assumes "df \<noteq> []"
  shows "\<exists>r. cohort_analysis df = Inr r
           \<and> set (index (retention r)) = cohort_month df ` set df
           \<and> index (retention r) \<noteq> []
           \<and> (\<forall>c\<in>set (index (retention r)). cell (retention r) c 0 = Some 100)"
proof -
  from cohort_analysis_tabulated [OF assms] obtain r where r: "cohort_analysis df = Inr r"
    by blast
  note tab = cohort_analysis_pivot [OF r]
  have idx: "set (index (retention r)) = cohort_month df ` set df"
    by (simp add: tab set_cohort_index)
  from assms have "set df \<noteq> {}" by simp
  with idx have ne: "index (retention r) \<noteq> []" by auto
  have "cell (retention r) c 0 = Some 100" if "c \<in> set (index (retention r))" for c
  proof -
    from that idx obtain e where e: "e \<in> set df" "cohort_month df e = c" by auto
    from period_zero_exists [OF e(1)] e(2) have "(c, 0) \<in> group_key df ` set df"
      by force
    then obtain m where m: "cohort_count df c 0 = Some m"
      by (simp add: cohort_count_eq)
    from retention_rate_Some [OF m] m have "retention_rate df c 0 = Some 100"
      by auto
    moreover from cohort_count_labels [OF m] have "0 \<in> set (period_columns df)" by simp
    ultimately show ?thesis
      using that by (simp add: tab cell_tabulate)
  qed
  with r idx ne show ?thesis by blast
qed

lemma somes_map:
  "[x. Some x \<leftarrow> map h xs] = map (the \<circ> h) (filter (\<lambda>x. h x \<noteq> None) xs)"
  by (induction xs) (auto split: option.splits)

lemma mean_skipna_distinct:
  assumes "distinct xs"
  shows "mean_skipna (map h xs) =
     (if {x \<in> set xs. h x \<noteq> None} = {} then None
      else Some ((\<Sum>x\<in>{x \<in> set xs. h x \<noteq> None}. the (h x))
                  / real (card {x \<in> set xs. h x \<noteq> None})))"
proof -
  let ?ys = "filter (\<lambda>x. h x \<noteq> None) xs"
  from assms have d: "distinct ?ys" by simp
  have s: "set ?ys = {x \<in> set xs. h x \<noteq> None}" by simp
  have sum: "sum_list (map (the \<circ> h) ?ys) = (\<Sum>x\<in>set ?ys. the (h x))"
    using sum_list_distinct_conv_sum_set [OF d, of "the \<circ> h"] by simp
  have len: "length ?ys = card (set ?ys)"
    using distinct_card [OF d] by simp
  have "mean_skipna (map h xs) =
      (if ?ys = [] then None
       else Some (sum_list (map (the \<circ> h) ?ys) / real (length ?ys)))"
    by (simp only: mean_skipna_def somes_map Let_def map_is_Nil_conv length_map)
  also have "\<dots> = (if set ?ys = {} then None
       else Some ((\<Sum>x\<in>set ?ys. the (h x)) / real (card (set ?ys))))"
    by (simp only: sum len [symmetric] set_empty)
  finally show ?thesis
    by (simp only: s)
qed

text \<open>
  Claim C9. In the retention table the cell of a cohort row and a period column is
  missing exactly when the cohort has no event in that period, and a cell that exists is
  positive, never zero; the average retention of a period is the sum of the cells that
  exist in its column divided by their number, which is not zero.
\<close>

theorem missing_cells_and_average:
  assumes "cohort_analysis df = Inr r"
      and "c \<in> set (index (retention r))"
      and "p \<in> set (columns (retention r))"
  shows "(cell (retention r) c p = None
            \<longleftrightarrow> \<not> (\<exists>e\<in>set df. cohort_month df e = c \<and> period_number df e = p))
     \<and> (\<forall>v. cell (retention r) c p = Some v \<longrightarrow> 0 < v)
     \<and> {c' \<in> set (index (retention r)). cell (retention r) c' p \<noteq> None} \<noteq> {}
     \<and> map_of (avg_retention r) p =
         Some (Some ((\<Sum>c'\<in>{c' \<in> set (index (retention r)). cell (retention r) c' p \<noteq> None}.
                        the (cell (retention r) c' p))
                     / real (card {c' \<in> set (index (retention r)).
                                     cell (retention r) c' p \<noteq> None})))"
proof -
  note tab = cohort_analysis_pivot [OF assms(1)]
  let ?idx = "cohort_index df" and ?cols = "period_columns df"
  from assms(2,3) have c: "c \<in> set ?idx" and p: "p \<in> set ?cols"
    by (simp_all add: tab)
  have cellp: "cell (retention r) c' p = retention_rate df c' p" if "c' \<in> set ?idx" for c'
    using that p by (simp add: tab cell_tabulate)
  have one: "cell (retention r) c p = None
      \<longleftrightarrow> \<not> (\<exists>e\<in>set df. cohort_month df e = c \<and> period_number df e = p)"
    by (simp only: cellp [OF c] retention_rate_None_iff cohort_count_None_iff)
  have two: "\<forall>v. cell (retention r) c p = Some v \<longrightarrow> 0 < v"
    using retention_rate_pos [of df c p] by (simp add: cellp [OF c])
  have S: "{c' \<in> set (index (retention r)). cell (retention r) c' p \<noteq> None}
      = {c' \<in> set ?idx. retention_rate df c' p \<noteq> None}"
    using cellp by (auto simp: tab)
  have three: "{c' \<in> set ?idx. retention_rate df c' p \<noteq> None} \<noteq> {}"
  proof -
    from p obtain e where e: "e \<in> set df" "period_number df e = p"
      by (auto simp: set_period_columns)
    then have "cohort_count df (cohort_month df e) p \<noteq> None"
      by (auto simp: cohort_count_None_iff)
    then have "retention_rate df (cohort_month df e) p \<noteq> None"
      by (simp add: retention_rate_None_iff)
    moreover from e have "cohort_month df e \<in> set ?idx"
      by (simp add: set_cohort_index)
    ultimately show ?thesis by blast
  qed
  have "map_of (avg_retention r) p
      = Some (mean_skipna (map (\<lambda>c'. retention_rate df c' p) ?idx))"
    using p by (simp add: tab map_of_map_restrict)
  also have "mean_skipna (map (\<lambda>c'. retention_rate df c' p) ?idx)
      = Some ((\<Sum>c'\<in>{c' \<in> set ?idx. retention_rate df c' p \<noteq> None}.
                  the (retention_rate df c' p))
              / real (card {c' \<in> set ?idx. retention_rate df c' p \<noteq> None}))"
    using mean_skipna_distinct [OF distinct_cohort_index, of "\<lambda>c'. retention_rate df c' p" df]
      three by simp
  also have "(\<Sum>c'\<in>{c' \<in> set ?idx. retention_rate df c' p \<noteq> None}.
                  the (retention_rate df c' p))
      = (\<Sum>c'\<in>{c' \<in> set ?idx. retention_rate df c' p \<noteq> None}.
                  the (cell (retention r) c' p))"
    by (rule sum.cong) (simp_all add: cellp)
  finally have four: "map_of (avg_retention r) p =
      Some (Some ((\<Sum>c'\<in>{c' \<in> set ?idx. retention_rate df c' p \<noteq> None}.
                      the (cell (retention r) c' p))
                  / real (card {c' \<in> set ?idx. retention_rate df c' p \<noteq> None})))" .
  from one two three four show ?thesis
    by (simp only: S simp_thms)
qed

text \<open>
  Claim C10. Reordering the event records changes nothing: the script gives the same
  outcome, with the same cohort table and retention table, on any permutation of its
  input.
\<close>

theorem tables_permutation_invariant:
  assumes "mset df = mset df'"
  shows "cohort_analysis df = cohort_analysis df'"
proof -
  from assms have s: "set df = set df'"
    by (rule mset_eq_setD)
  from assms have e: "df = [] \<longleftrightarrow> df' = []"
    by (metis mset_zero_iff)
  from cohort_data_set_cong [OF s] e show ?thesis
    by (simp add: cohort_analysis_def)
qed

lemma mean_skipna_None_iff: "mean_skipna vs = None \<longleftrightarrow> (\<forall>v\<in>set vs. v = None)"
proof -
  have "[x. Some x \<leftarrow> vs] = [] \<longleftrightarrow> (\<forall>v\<in>set vs. v = None)"
    by (induction vs) (auto split: option.splits)
  then show ?thesis
    by (simp add: mean_skipna_def Let_def)
qed

lemma mean_skipna_somes_cong:
  "[x. Some x \<leftarrow> vs] = [x. Some x \<leftarrow> ws] \<Longrightarrow> mean_skipna vs = mean_skipna ws"
  by (simp add: mean_skipna_def)

lemma somes_restrict:
  "[x. Some x \<leftarrow> map (\<lambda>p. if P p then h p else None) xs] = [x. Some x \<leftarrow> map h (filter P xs)]"
  by (induction xs) auto

lemma idxmax_map_Some:
  assumes "\<exists>x\<in>set xs. g x \<noteq> None"
  shows "\<exists>b v. idxmax xs (map g xs) = Some b \<and> b \<in> set xs \<and> g b = Some v
            \<and> (\<forall>x\<in>set xs. \<forall>u. g x = Some u \<longrightarrow> u \<le> v)"
proof -
  from assms have "nanargmax (map g xs) \<noteq> None"
    by (simp add: nanargmax_None)
  then obtain p where p: "nanargmax (map g xs) = Some p" by blast
  from nanargmax_first [OF p] obtain v where
    plt: "p < length xs" and v: "g (xs ! p) = Some v"
    and top: "\<forall>j<length (map g xs). \<forall>u. map g xs ! j = Some u \<longrightarrow> u \<le> v"
    by auto
  have "u \<le> v" if "x \<in> set xs" "g x = Some u" for x u
  proof -
    from that(1) obtain j where "j < length xs" "xs ! j = x"
      by (auto simp: in_set_conv_nth)
    with that(2) top show ?thesis by auto
  qed
  moreover from p have "idxmax xs (map g xs) = Some (xs ! p)"
    by (simp add: idxmax_def)
  moreover from plt have "xs ! p \<in> set xs" by simp
  ultimately show ?thesis using v by blast
qed

lemma idxmin_map_Some:
  assumes "\<exists>x\<in>set xs. g x \<noteq> None"
  shows "\<exists>b v. idxmin xs (map g xs) = Some b \<and> b \<in> set xs \<and> g b = Some v
            \<and> (\<forall>x\<in>set xs. \<forall>u. g x = Some u \<longrightarrow> v \<le> u)"
proof -
  from assms have "nanargmin (map g xs) \<noteq> None"
    by (simp add: nanargmin_None)
  then obtain p where p: "nanargmin (map g xs) = Some p" by blast
  from nanargmin_first [OF p] obtain v where
    plt: "p < length xs" and v: "g (xs ! p) = Some v"
    and bot: "\<forall>j<length (map g xs). \<forall>u. map g xs ! j = Some u \<longrightarrow> v \<le> u"
    by auto
  have "v \<le> u" if "x \<in> set xs" "g x = Some u" for x u
  proof -
    from that(1) obtain j where "j < length xs" "xs ! j = x"
      by (auto simp: in_set_conv_nth)
    with that(2) bot show ?thesis by auto
  qed
  moreover from p have "idxmin xs (map g xs) = Some (xs ! p)"
    by (simp add: idxmin_def)
  moreover from plt have "xs ! p \<in> set xs" by simp
  ultimately show ?thesis using v by blast
qed

lemma labelled_periods:
  "filter (\<lambda>p. 1 \<le> p \<and> p \<le> 5) (period_columns df)
     = filter (\<lambda>p. p \<in> set (period_columns df)) [1, 2, 3, 4, 5]"
proof (rule sorted_distinct_set_unique)
  show "sorted (filter (\<lambda>p. 1 \<le> p \<and> p \<le> 5) (period_columns df))"
    by (simp add: period_columns_def sorted_wrt_filter)
  show "distinct (filter (\<lambda>p. 1 \<le> p \<and> p \<le> 5) (period_columns df))"
    by (simp add: period_columns_def)
  show "sorted (filter (\<lambda>p. p \<in> set (period_columns df)) [1, 2, 3, 4, 5])"
    by (rule sorted_wrt_filter) simp
  show "distinct (filter (\<lambda>p. p \<in> set (period_columns df)) [1, 2, 3, 4, 5])"
    by (rule distinct_filter) simp
  have "\<And>p::int. 1 \<le> p \<and> p \<le> 5 \<longleftrightarrow> p \<in> set [1, 2, 3, 4, 5]"
    by (simp) arith
  then show "set (filter (\<lambda>p. 1 \<le> p \<and> p \<le> 5) (period_columns df))
      = set (filter (\<lambda>p. p \<in> set (period_columns df)) [1, 2, 3, 4, 5])"
    by (simp only: set_filter) blast
qed

lemma spec_mean_tabulated:
  assumes "c \<in> set (cohort_index df)"
  shows "spec_mean_periods_1_to_5
           (tabulate (cohort_index df) (period_columns df) (retention_rate df)) c
         = mean_skipna (map (retention_rate df c)
             (filter (\<lambda>p. 1 \<le> p \<and> p \<le> 5) (period_columns df)))"
proof -
  let ?ret = "tabulate (cohort_index df) (period_columns df) (retention_rate df)"
  have "cell ?ret c = (\<lambda>p. if p \<in> set (period_columns df) then retention_rate df c p else None)"
    using assms by (simp add: fun_eq_iff cell_tabulate)
  then have "spec_mean_periods_1_to_5 ?ret c
      = mean_skipna (map (\<lambda>p. if p \<in> set (period_columns df) then retention_rate df c p
                              else None) [1, 2, 3, 4, 5])"
    by (simp only: spec_mean_periods_1_to_5_def)
  also have "\<dots> = mean_skipna (map (retention_rate df c)
      (filter (\<lambda>p. p \<in> set (period_columns df)) [1, 2, 3, 4, 5]))"
    by (rule mean_skipna_somes_cong) (rule somes_restrict)
  finally show ?thesis
    by (simp only: labelled_periods)
qed

lemma spec_mean_outside:
  assumes "c \<notin> set (cohort_index df)"
  shows "spec_mean_periods_1_to_5
           (tabulate (cohort_index df) (period_columns df) (retention_rate df)) c = None"
  using assms by (simp add: spec_mean_periods_1_to_5_def mean_skipna_None_iff cell_tabulate)

text \<open>
  Claim C4, amended. The script takes the columns at positions 1 to 5, not the columns
  labelled 1 to 5. Where the two selections agree, and some cell exists in periods 1 to
  5, the best and the worst cohort are reported, and they are a cohort of highest and a
  cohort of lowest mean retention over the elapsed periods 1 to 5, ignoring missing
  cells.
\<close>

theorem best_worst_cohort_labelled:
  assumes "cohort_analysis df = Inr r"
      and "take 5 (drop 1 (columns (retention r)))
             = filter (\<lambda>p. 1 \<le> p \<and> p \<le> 5) (columns (retention r))"
      and "\<exists>c p. 1 \<le> p \<and> p \<le> 5 \<and> cell (retention r) c p \<noteq> None"
  shows "\<exists>b w mb mw. best_cohort r = Some b \<and> worst_cohort r = Some w
      \<and> b \<in> set (index (retention r)) \<and> w \<in> set (index (retention r))
      \<and> spec_mean_periods_1_to_5 (retention r) b = Some mb
      \<and> spec_mean_periods_1_to_5 (retention r) w = Some mw
      \<and> (\<forall>c m. spec_mean_periods_1_to_5 (retention r) c = Some m \<longrightarrow> mw \<le> m \<and> m \<le> mb)"
proof -
  let ?idx = "cohort_index df" and ?cols = "period_columns df"
  let ?ret = "tabulate ?idx ?cols (retention_rate df)"
  let ?g = "spec_mean_periods_1_to_5 ?ret"
  from cohort_analysis_nonempty [OF assms(1)] have ne: "df \<noteq> []" .
  note tab = cohort_analysis_pivot [OF assms(1)]
  from assms(2) have pos: "take 5 (drop 1 ?cols) = filter (\<lambda>p. 1 \<le> p \<and> p \<le> 5) ?cols"
    by (simp add: tab)
  have means: "map (\<lambda>c. mean_skipna (map (retention_rate df c) (take 5 (drop 1 ?cols)))) ?idx
      = map ?g ?idx"
    by (rule map_cong) (simp_all only: pos spec_mean_tabulated)
  from assms(1) cohort_analysis_tabulated [OF ne]
  have best: "best_cohort r = idxmax ?idx (map ?g ?idx)"
    and worst: "worst_cohort r = idxmin ?idx (map ?g ?idx)"
    by (auto simp only: means [symmetric] sum.inject cohort_result.simps)
  from assms(3) obtain c p where cp: "1 \<le> p" "p \<le> 5" "cell ?ret c p \<noteq> None"
    by (auto simp: tab)
  then have c: "c \<in> set ?idx"
    by (auto simp: cell_tabulate split: if_splits)
  from cp(1,2) have "p \<in> set [1, 2, 3, 4, 5]" by simp arith
  with cp(3) have "?g c \<noteq> None"
    unfolding spec_mean_periods_1_to_5_def mean_skipna_None_iff by force
  with c have ex: "\<exists>x\<in>set ?idx. ?g x \<noteq> None" by blast
  from idxmax_map_Some [OF ex] obtain b mb where
    b: "idxmax ?idx (map ?g ?idx) = Some b" "b \<in> set ?idx" "?g b = Some mb"
    and bmax: "\<forall>x\<in>set ?idx. \<forall>u. ?g x = Some u \<longrightarrow> u \<le> mb"
    by blast
  from idxmin_map_Some [OF ex] obtain w mw where
    w: "idxmin ?idx (map ?g ?idx) = Some w" "w \<in> set ?idx" "?g w = Some mw"
    and wmin: "\<forall>x\<in>set ?idx. \<forall>u. ?g x = Some u \<longrightarrow> mw \<le> u"
    by blast
  have all: "mw \<le> m \<and> m \<le> mb" if "?g x = Some m" for x m
  proof -
    from that spec_mean_outside [of x df] have "x \<in> set ?idx" by force
    with that bmax wmin show ?thesis by blast
  qed
  from b w all show ?thesis
    unfolding tab(2) best worst tabulate_sel by blast
qed

lemma cohort_example_run: "cohort_analysis cohort_example = Inr cohort_example_result"
  by code_simp

lemma two_cohort_run: "cohort_analysis two_cohort_example = Inr two_cohort_result"
  by code_simp

lemma gap_run: "cohort_analysis gap_example = Inr gap_result"
  by code_simp

lemma cohort_example_cells:
  "cell (cohort_pivot cohort_example_result) 24288 0 = Some 2"
  "cell (cohort_pivot cohort_example_result) 24288 1 = Some 1"
  "cell (retention cohort_example_result) 24288 1 = Some 50"
  by (simp_all add: cohort_example_result_def cell_def)

lemma two_cohort_cells:
  "cell (retention two_cohort_result) 24288 1 = Some 50"
  "cell (retention two_cohort_result) 24288 2 = Some 50"
  "cell (retention two_cohort_result) 24289 1 = Some 100"
  "cell (retention two_cohort_result) 24289 2 = None"
  by (simp_all add: two_cohort_result_def cell_def)

lemma two_cohort_spec_means:
  "spec_mean_periods_1_to_5 (retention two_cohort_result) 24288 = Some 50"
  "spec_mean_periods_1_to_5 (retention two_cohort_result) 24289 = Some 100"
  by (simp_all add: two_cohort_result_def spec_mean_periods_1_to_5_def cell_def mean_skipna_def)

text \<open>
  Claim C4 as stated fails when the periods that occur are not contiguous. With periods
  0, 1 and 7, the column of period 7 is at position 2 and enters the mean: January is
  reported best although its mean over the periods 1 to 5 is 50 and February's is 200/3.
\<close>

theorem best_cohort_counterexample:
  "cohort_analysis gap_example = Inr gap_result
   \<and> cell (retention gap_result) 24288 1 = Some 50
   \<and> best_cohort gap_result = Some 24288
   \<and> worst_cohort gap_result = Some 24289
   \<and> spec_mean_periods_1_to_5 (retention gap_result) 24288 = Some 50
   \<and> spec_mean_periods_1_to_5 (retention gap_result) 24289 = Some (200 / 3)"
  using gap_run
  by (simp add: gap_result_def spec_mean_periods_1_to_5_def cell_def mean_skipna_def)

text \<open>The cohort scenario as an instance of C1: one of two users returns in period 1.\<close>

theorem retention_formula_witness:
  "cohort_analysis cohort_example = Inr cohort_example_result
   \<and> cell (cohort_pivot cohort_example_result) 24288 1 = Some 1
   \<and> cell (retention cohort_example_result) 24288 1 = Some (real 1 / real 2 * 100)"
proof -
  from retention_formula [OF cohort_example_run cohort_example_cells(2)]
  obtain n0 where "cell (cohort_pivot cohort_example_result) 24288 0 = Some n0"
    and "cell (retention cohort_example_result) 24288 1 = Some (real 1 / real n0 * 100)"
    by blast
  with cohort_example_cells(1) cohort_example_cells(2) cohort_example_run show ?thesis
    by simp
qed

text \<open>The cohort scenario as an instance of C2.\<close>

theorem period_zero_is_100_witness:
  "cohort_example \<noteq> []
   \<and> cohort_analysis cohort_example = Inr cohort_example_result
   \<and> cell (retention cohort_example_result) 24288 0 = Some 100"
proof -
  have ne: "cohort_example \<noteq> []"
    by (simp add: cohort_example_def)
  from period_zero_is_100 [OF ne] obtain r where
    r: "cohort_analysis cohort_example = Inr r"
    and all: "\<forall>c\<in>set (index (retention r)). cell (retention r) c 0 = Some 100"
    by blast
  from r cohort_example_run have eq: "r = cohort_example_result" by simp
  have "24288 \<in> set (index (retention cohort_example_result))"
    by (simp add: cohort_example_result_def)
  with all eq ne cohort_example_run show ?thesis by blast
qed

text \<open>The two-cohort example as an instance of C9: the February cohort has no cell at
  period 2, and the average of that period is the January cell alone.\<close>

theorem missing_cells_and_average_witness:
  "cohort_analysis two_cohort_example = Inr two_cohort_result
   \<and> 24289 \<in> set (index (retention two_cohort_result))
   \<and> 2 \<in> set (columns (retention two_cohort_result))
   \<and> cell (retention two_cohort_result) 24289 2 = None
   \<and> map_of (avg_retention two_cohort_result) 2 = Some (Some 50)"
proof -
  have c: "24289 \<in> set (index (retention two_cohort_result))"
    and p: "2 \<in> set (columns (retention two_cohort_result))"
    by (simp_all add: two_cohort_result_def)
  have S: "{c' \<in> set (index (retention two_cohort_result)).
             cell (retention two_cohort_result) c' 2 \<noteq> None} = {24288}"
  proof -
    have "set (index (retention two_cohort_result)) = {24288, 24289}"
      by (simp add: two_cohort_result_def)
    with two_cohort_cells show ?thesis by auto
  qed
  from missing_cells_and_average [OF two_cohort_run c p]
  have "map_of (avg_retention two_cohort_result) 2 =
      Some (Some ((\<Sum>c'\<in>{24288}. the (cell (retention two_cohort_result) c' 2))
                  / real (card {24288::int})))"
    by (simp only: S)
  with two_cohort_cells two_cohort_run c p show ?thesis by simp
qed

text \<open>The cohort scenario, reversed, as an instance of C10.\<close>

theorem tables_permutation_invariant_witness:
  "mset (rev cohort_example) = mset cohort_example
   \<and> cohort_analysis (rev cohort_example) = Inr cohort_example_result"
proof -
  have m: "mset (rev cohort_example) = mset cohort_example" by simp
  from tables_permutation_invariant [OF m] cohort_example_run m show ?thesis by simp
qed

text \<open>The two-cohort example as an instance of the amended C4.\<close>

theorem best_worst_cohort_labelled_witness:
  "cohort_analysis two_cohort_example = Inr two_cohort_result
   \<and> take 5 (drop 1 (columns (retention two_cohort_result)))
       = filter (\<lambda>p. 1 \<le> p \<and> p \<le> 5) (columns (retention two_cohort_result))
   \<and> cell (retention two_cohort_result) 24288 1 = Some 50
   \<and> best_cohort two_cohort_result = Some 24289
   \<and> worst_cohort two_cohort_result = Some 24288"
proof -
  let ?ret = "retention two_cohort_result"
  have pos: "take 5 (drop 1 (columns ?ret)) = filter (\<lambda>p. 1 \<le> p \<and> p \<le> 5) (columns ?ret)"
    by (simp add: two_cohort_result_def)
  have "(1::int) \<le> 1 \<and> (1::int) \<le> 5 \<and> cell ?ret 24288 1 \<noteq> None"
    by (simp add: two_cohort_cells)
  then have ex: "\<exists>c p. 1 \<le> p \<and> p \<le> 5 \<and> cell ?ret c p \<noteq> None"
    by blast
  from best_worst_cohort_labelled [OF two_cohort_run pos ex] obtain b w mb mw where
    b: "best_cohort two_cohort_result = Some b" "b \<in> set (index ?ret)"
       "spec_mean_periods_1_to_5 ?ret b = Some mb"
    and w: "worst_cohort two_cohort_result = Some w" "w \<in> set (index ?ret)"
       "spec_mean_periods_1_to_5 ?ret w = Some mw"
    and ext: "\<forall>c m. spec_mean_periods_1_to_5 ?ret c = Some m \<longrightarrow> mw \<le> m \<and> m \<le> mb"
    by blast
  have idx: "set (index ?ret) = {24288, 24289}"
    by (simp add: two_cohort_result_def)
  from ext two_cohort_spec_means have bounds: "mw \<le> 50" "100 \<le> mb" by blast+
  from b(2,3) idx two_cohort_spec_means bounds(2) have "b = 24289" by auto
  moreover from w(2,3) idx two_cohort_spec_means bounds(1) have "w = 24288" by auto
  ultimately show ?thesis
    using b(1) w(1) two_cohort_run pos two_cohort_cells(1) by simp
qed

text \<open>
  Claim C6. With the data placeholder still in place, either script prints its banner
  and the format hint and exits with status 0; nothing is loaded or aggregated, whatever
  the loader and the stage configuration are.
\<close>

theorem template_mode_exits:
  "cohort_script loads ''{{data}}'' = Exit 0 (cohort_banner @ cohort_hint)
   \<and> funnel_script loads' ''{{data}}'' stages_lit stages_val
       = Exit 0 (funnel_banner @ funnel_hint)"
  by (simp add: cohort_script_def funnel_script_def)

lemma funnel_stages_default:
  "funnel_stages [] stages_val df = Inr (unique (map fe_stage df))"
  by (simp add: funnel_stages_def)

lemma set_unique: "set (unique xs) = set xs"
  by (induction xs rule: unique.induct) auto

lemma distinct_unique: "distinct (unique xs)"
  by (induction xs rule: unique.induct) (auto simp: set_unique)

text \<open>
  Claim C5 fails on the code. With the stage placeholder absent, that is, left as it is
  in the script, the condition of line 30 compares the ten-character literal with the
  empty string, selects the first branch, and evaluating it raises NameError: the stages
  observed in the data are not used.
\<close>

theorem funnel_stages_unsubstituted:
  "funnel_stages template_stages_lit template_stages_val df = Inl NameError"
  by (simp add: funnel_stages_def template_stages_lit_def template_stages_val_def)

lemma contiguous_columns_positions:
  fixes cols :: "int list"
  assumes "cols = map int [0 ..< k]"
  shows "take 5 (drop 1 cols) = filter (\<lambda>p. 1 \<le> p \<and> p \<le> 5) cols"
proof (rule sorted_distinct_set_unique)
  have s: "sorted cols" and d: "distinct cols"
    unfolding assms by (simp_all add: sorted_map distinct_map inj_on_def sorted_wrt_map)
  show "sorted (take 5 (drop 1 cols))"
    using s by (intro sorted_wrt_take sorted_wrt_drop)
  show "distinct (take 5 (drop 1 cols))"
    using d by (intro distinct_take distinct_drop)
  show "sorted (filter (\<lambda>p. 1 \<le> p \<and> p \<le> 5) cols)"
    using s by (rule sorted_wrt_filter)
  show "distinct (filter (\<lambda>p. 1 \<le> p \<and> p \<le> 5) cols)"
    using d by (rule distinct_filter)
  have "take 5 (drop 1 cols) = map int (take 5 (drop 1 [0 ..< k]))"
    unfolding assms by (simp add: take_map drop_map)
  also have "take 5 (drop 1 [0 ..< k]) = [1 ..< min k 6]"
    by (cases "6 \<le> k") (simp_all add: min_def)
  finally have "set (take 5 (drop 1 cols)) = int ` {1 ..< min k 6}"
    by simp
  also have "\<dots> = {p. 1 \<le> p \<and> p \<le> 5} \<inter> int ` {0 ..< k}"
  proof (intro set_eqI iffI)
    fix p assume "p \<in> int ` {1 ..< min k 6}"
    then show "p \<in> {p. 1 \<le> p \<and> p \<le> 5} \<inter> int ` {0 ..< k}" by auto
  next
    fix p assume "p \<in> {p. 1 \<le> p \<and> p \<le> 5} \<inter> int ` {0 ..< k}"
    then obtain n where "p = int n" "n < k" "1 \<le> n" "n \<le> 5" by auto
    then show "p \<in> int ` {1 ..< min k 6}" by auto
  qed
  also have "\<dots> = set (filter (\<lambda>p. 1 \<le> p \<and> p \<le> 5) cols)"
    unfolding assms by auto
  finally show "set (take 5 (drop 1 cols)) = set (filter (\<lambda>p. 1 \<le> p \<and> p \<le> 5) cols)" .
qed

lemma funnel_script_unsubstituted_stages:
  assumes "data_json \<noteq> ''{{data}}''" and "loads data_json = Inr df" and "df \<noteq> []"
  shows "funnel_script loads data_json template_stages_lit template_stages_val = Raised NameError"
  using assms
  by (simp add: funnel_script_def funnel_stages_def template_stages_lit_def
        template_stages_val_def)

end
